theory Spec2Isabelle
  imports Main "HOL-Library.Char_ord" "HOL-Library.List_Lexorder" "HOL-Library.Word"
begin

section \<open>Message schema (database/Schema.ts)\<close>

text \<open>
  \<^verbatim>\<open>InsertMessageSchema\<close> and the class \<^verbatim>\<open>WhatsAppMessage\<close> have the same fields, the
  class adding \<^verbatim>\<open>createdAt\<close>. The fields \<^verbatim>\<open>id\<close>, \<^verbatim>\<open>from\<close> and \<^verbatim>\<open>to\<close> are named
  \<open>message_id\<close>, \<open>from_phone\<close> and \<open>to_phone\<close> here (the last two are the column names of
  the table). The type of the identifier is a parameter: the normalizer reads it with an
  unchecked \<^verbatim>\<open>key.id!\<close>, so what it returns carries a \<open>string option\<close>; a stored row
  carries a \<open>string\<close>. A JavaScript string is modelled as the list of its code units.
\<close>

record 'i InsertMessage =
  message_id :: 'i
  from_phone :: "string option"
  to_phone :: "string option"
  chat_id :: string
  timestamp :: string
  content :: string
  messageType :: string
  isFromMe :: bool
  isGroup :: bool
  processed :: bool

record 'i WhatsAppMessage = "'i InsertMessage" +
  createdAt :: string

section \<open>Message repository (database/Repository.ts)\<close>

text \<open>
  The table \<^verbatim>\<open>messages\<close> is the list of its rows. Every operation runs one SQL statement,
  which the storage layer may fail with a \<^verbatim>\<open>SqlError\<close>: \<open>faults\<close> lists, for the
  statements to come, whether each one fails (none fails once the list is used up).
  \<open>sql_now\<close> is what \<^verbatim>\<open>datetime('now')\<close> evaluates to.
\<close>

datatype SqlError = SqlError

record db =
  rows :: "string WhatsAppMessage list"
  faults :: "bool list"
  sql_now :: string

definition next_statement :: "db \<Rightarrow> bool \<times> db" where
  "next_statement d =
     (case faults d of [] \<Rightarrow> (False, d) | f # fs \<Rightarrow> (f, d\<lparr>faults := fs\<rparr>))"

text \<open>
  \<^verbatim>\<open>INSERT INTO messages (...) VALUES (...) RETURNING ...\<close>: the column \<^verbatim>\<open>created_at\<close> is not
  in the column list, so the row takes the default \<^verbatim>\<open>datetime('now')\<close>; \<^verbatim>\<open>id\<close> is the
  primary key, so a second row with a stored identifier is refused.
\<close>

definition insertMessage ::
  "(string, 'z) InsertMessage_scheme \<Rightarrow> db \<Rightarrow> (SqlError + string WhatsAppMessage) \<times> db" where
  "insertMessage message d =
     (case next_statement d of
        (True, d') \<Rightarrow> (Inl SqlError, d')
      | (False, d') \<Rightarrow>
          if message_id message \<in> set (map message_id (rows d')) then (Inl SqlError, d')
          else
            let row = \<lparr>message_id = message_id message, from_phone = from_phone message,
                       to_phone = to_phone message, chat_id = chat_id message,
                       timestamp = timestamp message, content = content message,
                       messageType = messageType message, isFromMe = isFromMe message,
                       isGroup = isGroup message, processed = processed message,
                       createdAt = sql_now d'\<rparr>
            in (Inr row, d'\<lparr>rows := rows d' @ [row]\<rparr>))"

text \<open>
  \<^verbatim>\<open>SELECT ... WHERE processed = false ORDER BY timestamp ASC\<close>. The column is text, compared
  code unit by code unit; rows with equal timestamps are kept in table order.
\<close>

definition getUnprocessedMessages ::
  "db \<Rightarrow> (SqlError + string WhatsAppMessage list) \<times> db" where
  "getUnprocessedMessages d =
     (case next_statement d of
        (True, d') \<Rightarrow> (Inl SqlError, d')
      | (False, d') \<Rightarrow> (Inr (sort_key timestamp (filter (\<lambda>r. \<not> processed r) (rows d'))), d'))"

text \<open>
  \<^verbatim>\<open>UPDATE messages SET processed = true WHERE id = ? RETURNING ...\<close>, then \<^verbatim>\<open>result[0]\<close>:
  the first returned row, or \<^verbatim>\<open>undefined\<close> (\<open>None\<close>) when the statement matched no row.
  \<open>set_processed\<close> is the table after the statement.
\<close>

definition set_processed :: "string \<Rightarrow> string WhatsAppMessage list \<Rightarrow> string WhatsAppMessage list" where
  "set_processed messageId rs =
     map (\<lambda>r. if message_id r = messageId then r\<lparr>processed := True\<rparr> else r) rs"

definition markAsProcessed ::
  "string \<Rightarrow> db \<Rightarrow> (SqlError + string WhatsAppMessage option) \<times> db" where
  "markAsProcessed messageId d =
     (case next_statement d of
        (True, d') \<Rightarrow> (Inl SqlError, d')
      | (False, d') \<Rightarrow>
          let updated = set_processed messageId (rows d');
              result = filter (\<lambda>r. message_id r = messageId) updated
          in (Inr (case result of [] \<Rightarrow> None | r # _ \<Rightarrow> Some r), d'\<lparr>rows := updated\<rparr>))"

definition getMessagesByChat ::
  "string \<Rightarrow> db \<Rightarrow> (SqlError + string WhatsAppMessage list) \<times> db" where
  "getMessagesByChat chatId d =
     (case next_statement d of
        (True, d') \<Rightarrow> (Inl SqlError, d')
      | (False, d') \<Rightarrow> (Inr (sort_key timestamp (filter (\<lambda>r. chat_id r = chatId) (rows d'))), d'))"

section \<open>Reconciliation scheduler (effects/Logger.ts)\<close>

text \<open>
  The log lines are kept as structured entries instead of formatted text. \<open>LogSummary\<close>
  holds the parts of the per-record line
  \<^verbatim>\<open>${direction} [${messageType}] ${from} ${direction} ${to}: ${truncatedContent}\<close>.
\<close>

datatype direction = Outgoing | Incoming

datatype log_entry =
    LogNoUnprocessed
  | LogFound nat
  | LogSummary direction string "string option" "string option" string
  | LogProcessed nat
  | LogLoggingError

definition truncatedContent :: "string \<Rightarrow> string" where
  "truncatedContent c = (if length c > 50 then take 50 c @ ''...'' else c)"

definition summary :: "string WhatsAppMessage \<Rightarrow> log_entry" where
  "summary message =
     LogSummary (if isFromMe message then Outgoing else Incoming) (messageType message)
       (from_phone message) (to_phone message) (truncatedContent (content message))"


text \<open>The \<^verbatim>\<open>for\<close> loop of a sweep: log the summary, then mark the record.\<close>

fun log_and_mark ::
  "string WhatsAppMessage list \<Rightarrow> db \<Rightarrow> log_entry list \<Rightarrow> (SqlError + unit) \<times> db \<times> log_entry list" where
  "log_and_mark [] d lg = (Inr (), d, lg)"
| "log_and_mark (message # ms) d lg =
     (case markAsProcessed (message_id message) d of
        (Inl e, d') \<Rightarrow> (Inl e, d', lg @ [summary message])
      | (Inr _, d') \<Rightarrow> log_and_mark ms d' (lg @ [summary message]))"

definition logUnprocessedMessages ::
  "db \<Rightarrow> log_entry list \<Rightarrow> (SqlError + unit) \<times> db \<times> log_entry list" where
  "logUnprocessedMessages d lg =
     (case getUnprocessedMessages d of
        (Inl e, d') \<Rightarrow> (Inl e, d', lg)
      | (Inr unprocessedMessages, d') \<Rightarrow>
          if length unprocessedMessages = 0 then (Inr (), d', lg @ [LogNoUnprocessed])
          else
            (case log_and_mark unprocessedMessages d' (lg @ [LogFound (length unprocessedMessages)]) of
               (Inl e, d'', lg') \<Rightarrow> (Inl e, d'', lg')
             | (Inr _, d'', lg') \<Rightarrow> (Inr (), d'', lg' @ [LogProcessed (length unprocessedMessages)])))"

text \<open>
  One tick of \<^verbatim>\<open>startLogging\<close>: the same sweep under \<^verbatim>\<open>Effect.catchAll\<close>, which turns a
  failure into a log line.
\<close>

definition sweep :: "db \<Rightarrow> log_entry list \<Rightarrow> db \<times> log_entry list" where
  "sweep d lg =
     (case logUnprocessedMessages d lg of
        (Inl e, d', lg') \<Rightarrow> (d', lg' @ [LogLoggingError])
      | (Inr _, d', lg') \<Rightarrow> (d', lg'))"

text \<open>Two rows that agree on every field but \<open>processed\<close>.\<close>

definition same_but_processed :: "string WhatsAppMessage \<Rightarrow> string WhatsAppMessage \<Rightarrow> bool" where
  "same_but_processed r r' \<longleftrightarrow>
     message_id r' = message_id r \<and> from_phone r' = from_phone r \<and> to_phone r' = to_phone r \<and>
     chat_id r' = chat_id r \<and> timestamp r' = timestamp r \<and> content r' = content r \<and>
     messageType r' = messageType r \<and> isFromMe r' = isFromMe r \<and> isGroup r' = isGroup r \<and>
     createdAt r' = createdAt r"

section \<open>Event normalizer (whatsapp/MessageStream.ts)\<close>

text \<open>
  The parts of \<^verbatim>\<open>proto.IWebMessageInfo\<close> that the normalizer reads. A field that is
  \<^verbatim>\<open>null\<close> or \<^verbatim>\<open>undefined\<close> is \<open>None\<close>. For a payload variant the outer option says
  whether the variant is present, the inner one holds the text the normalizer looks at
  (the text of an extended text message, the caption of an image or a video, the file
  name of a document). \<open>messageTimestamp\<close> is a count of seconds, held as a number or as
  a \<^verbatim>\<open>Long\<close> object.
\<close>

datatype timestamp_value = Seconds int | LongSeconds int

record MessageKey =
  remoteJid :: "string option"
  fromMe :: "bool option"
  key_id :: "string option"
  participant :: "string option"

record IMessage =
  conversation :: "string option"
  extendedTextMessage :: "string option option"
  imageMessage :: "string option option"
  videoMessage :: "string option option"
  audioMessage :: "unit option"
  stickerMessage :: "unit option"
  documentMessage :: "string option option"

record IWebMessageInfo =
  key :: "MessageKey option"
  message :: "IMessage option"
  messageTimestamp :: "timestamp_value option"

text \<open>
  The clock and the date formatting are the runtime's: \<open>now_iso\<close> is
  \<^verbatim>\<open>new Date().toISOString()\<close>, \<open>iso_of_ms ms\<close> is \<^verbatim>\<open>new Date(ms).toISOString()\<close> for a
  valid date.
\<close>

record js_env =
  now_iso :: string
  iso_of_ms :: "int \<Rightarrow> string"

text \<open>A string is truthy when it is present and not empty.\<close>

definition truthy :: "string option \<Rightarrow> bool" where
  "truthy s = (case s of None \<Rightarrow> False | Some t \<Rightarrow> t \<noteq> [])"

text \<open>\<^verbatim>\<open>a || b\<close> on a string that may be absent and a default.\<close>

definition or_else :: "string option \<Rightarrow> string \<Rightarrow> string" where
  "or_else s dflt = (case s of None \<Rightarrow> dflt | Some t \<Rightarrow> if t = [] then dflt else t)"

text \<open>\<^verbatim>\<open>s.includes(sub)\<close>.\<close>

fun includes_str :: "string \<Rightarrow> string \<Rightarrow> bool" where
  "includes_str [] sub = (sub = [])"
| "includes_str (c # cs) sub = (take (length sub) (c # cs) = sub \<or> includes_str cs sub)"

text \<open>\<^verbatim>\<open>fullId.split('@')[0]?.split(':')[0] || null\<close>, after \<^verbatim>\<open>if (!fullId) return null\<close>.\<close>

definition extractNumber :: "string option \<Rightarrow> string option" where
  "extractNumber fullId =
     (if \<not> truthy fullId then None
      else
        let number = takeWhile (\<lambda>c. c \<noteq> CHR '':'') (takeWhile (\<lambda>c. c \<noteq> CHR ''@'') (the fullId))
        in if number = [] then None else Some number)"

text \<open>
  \<^verbatim>\<open>new Date(Number(messageTimestamp) * 1000).toISOString()\<close>, or the current time when
  the timestamp is falsy: absent, or the number zero (a \<^verbatim>\<open>Long\<close> is an object and truthy
  whatever it holds). \<^verbatim>\<open>toISOString\<close> throws a \<^verbatim>\<open>RangeError\<close> on a date out of the
  range of \<^verbatim>\<open>Date\<close> (more than 8.64e15 milliseconds from the epoch): \<open>None\<close>.
\<close>

definition format_seconds :: "js_env \<Rightarrow> int \<Rightarrow> string option" where
  "format_seconds env t =
     (if \<bar>t * 1000\<bar> \<le> 8640000000000000 then Some (iso_of_ms env (t * 1000)) else None)"

definition timestamp_of :: "js_env \<Rightarrow> timestamp_value option \<Rightarrow> string option" where
  "timestamp_of env ts =
     (case ts of
        None \<Rightarrow> Some (now_iso env)
      | Some (Seconds t) \<Rightarrow> if t = 0 then Some (now_iso env) else format_seconds env t
      | Some (LongSeconds t) \<Rightarrow> format_seconds env t)"

text \<open>The timestamps that \<open>timestamp_of\<close> can format: absent, or within the range of \<^verbatim>\<open>Date\<close>.\<close>

definition in_date_range :: "timestamp_value option \<Rightarrow> bool" where
  "in_date_range ts =
     (case ts of
        None \<Rightarrow> True
      | Some (Seconds t) \<Rightarrow> \<bar>t * 1000\<bar> \<le> 8640000000000000
      | Some (LongSeconds t) \<Rightarrow> \<bar>t * 1000\<bar> \<le> 8640000000000000)"

text \<open>The first-match-wins chain over the payload variants: content and type.\<close>

definition content_and_type :: "IMessage option \<Rightarrow> string \<times> string" where
  "content_and_type messageInfo =
     (case messageInfo of
        None \<Rightarrow> (''[Special message]'', ''other'')
      | Some mi \<Rightarrow>
          if truthy (conversation mi) then (the (conversation mi), ''text'')
          else if (case extendedTextMessage mi of None \<Rightarrow> False | Some t \<Rightarrow> truthy t)
            then (the (the (extendedTextMessage mi)), ''text'')
          else if imageMessage mi \<noteq> None
            then (or_else (the (imageMessage mi)) ''[Image]'', ''image'')
          else if videoMessage mi \<noteq> None
            then (or_else (the (videoMessage mi)) ''[Video]'', ''video'')
          else if audioMessage mi \<noteq> None then (''[Audio]'', ''audio'')
          else if stickerMessage mi \<noteq> None then (''[Sticker]'', ''sticker'')
          else if documentMessage mi \<noteq> None
            then (''[Document: '' @ or_else (the (documentMessage mi)) ''No name'' @ '']'', ''document'')
          else (''[Special message]'', ''other''))"

datatype stream_log =
    LogErrorExtracting
  | LogFailedToQueue
  | LogProcessing "string" "string option"
  | LogStored string
  | LogFailedToProcess string

text \<open>
  The normalizer. The effect always succeeds; its value is the record or \<^verbatim>\<open>null\<close>
  (\<open>None\<close>), and the second component holds the diagnostic that the \<^verbatim>\<open>catch\<close> block
  logs. The only statement of the \<^verbatim>\<open>try\<close> block that can throw on an input of this type
  is the formatting of the timestamp.
\<close>

definition extractMessageDataEffect ::
  "js_env \<Rightarrow> IWebMessageInfo \<Rightarrow> string option \<Rightarrow> string option InsertMessage option \<times> stream_log list" where
  "extractMessageDataEffect env msg myNumber =
     (case key msg of
        None \<Rightarrow> (None, [])
      | Some k \<Rightarrow>
          if \<not> truthy (remoteJid k) then (None, [])
          else
            let chatId = the (remoteJid k) in
            (case timestamp_of env (messageTimestamp msg) of
               None \<Rightarrow> (None, [LogErrorExtracting])
             | Some ts \<Rightarrow>
                 let is_from_me = (case fromMe k of None \<Rightarrow> False | Some b \<Rightarrow> b);
                     is_group = includes_str chatId ''@g.us'';
                     from_to =
                       (if is_from_me
                          then (if truthy myNumber then extractNumber myNumber else None,
                                extractNumber (Some chatId))
                        else if is_group
                          then (extractNumber (Some (or_else (participant k) chatId)),
                                if truthy myNumber then extractNumber myNumber else None)
                        else (extractNumber (Some chatId),
                              if truthy myNumber then extractNumber myNumber else None));
                     ct = content_and_type (message msg)
                 in (Some \<lparr>message_id = key_id k, from_phone = fst from_to, to_phone = snd from_to,
                            chat_id = chatId, timestamp = ts, content = fst ct,
                            messageType = snd ct, isFromMe = is_from_me, isGroup = is_group,
                            processed = False\<rparr>, [])))"

section \<open>Ingestion pipeline (whatsapp/MessageStream.ts)\<close>

datatype upsert_type = Notify | Append

record BaileysMessage =
  upsert_type :: upsert_type
  messages :: "IWebMessageInfo list"







text \<open>
  The first \<^verbatim>\<open>Stream.mapEffect\<close>: the records of one batch, in arrival order. The
  normalizer is called without a local identity.
\<close>

fun processBatch ::
  "js_env \<Rightarrow> IWebMessageInfo list \<Rightarrow> string option InsertMessage list \<times> stream_log list" where
  "processBatch env [] = ([], [])"
| "processBatch env (msg # rest) =
     (let (here, lg) =
            (if (case key msg of None \<Rightarrow> False | Some k \<Rightarrow> truthy (remoteJid k))
             then (case extractMessageDataEffect env msg None of
                     (None, l) \<Rightarrow> ([], l)
                   | (Some p, l) \<Rightarrow> ([p], l))
             else ([], []));
          (more, lg') = processBatch env rest
      in (here @ more, lg @ lg'))"

text \<open>
  \<^verbatim>\<open>WhatsAppMessage.make({...message, createdAt: new Date().toISOString()})\<close>. The class
  validates its fields: without an identifier the constructor throws (\<open>None\<close>).
\<close>

definition make_WhatsAppMessage :: "js_env \<Rightarrow> string option InsertMessage \<Rightarrow> string WhatsAppMessage option" where
  "make_WhatsAppMessage env m =
     (case message_id m of
        None \<Rightarrow> None
      | Some i \<Rightarrow>
          Some \<lparr>message_id = i, from_phone = from_phone m, to_phone = to_phone m,
                chat_id = chat_id m, timestamp = timestamp m, content = content m,
                messageType = messageType m, isFromMe = isFromMe m, isGroup = isGroup m,
                processed = processed m, createdAt = now_iso env\<rparr>)"

text \<open>
  \<^verbatim>\<open>processMessageStream\<close> on the records of a batch: each one is made into a
  \<^verbatim>\<open>WhatsAppMessage\<close> and inserted; a failed insertion is logged and the next record
  follows. An exception of \<open>make_WhatsAppMessage\<close> is not a failure that \<^verbatim>\<open>catchAll\<close>
  handles: the stream ends there (the result is \<open>False\<close>).
\<close>

fun persist_all ::
  "js_env \<Rightarrow> string option InsertMessage list \<Rightarrow> db \<Rightarrow> stream_log list \<Rightarrow> bool \<times> db \<times> stream_log list" where
  "persist_all env [] d lg = (True, d, lg)"
| "persist_all env (m # ms) d lg =
     (case make_WhatsAppMessage env m of
        None \<Rightarrow> (False, d, lg)
      | Some wm \<Rightarrow>
          (case insertMessage wm d of
             (Inl e, d') \<Rightarrow>
               persist_all env ms d'
                 (lg @ [LogProcessing (message_id wm) (from_phone wm), LogFailedToProcess (message_id wm)])
           | (Inr row, d') \<Rightarrow>
               persist_all env ms d'
                 (lg @ [LogProcessing (message_id wm) (from_phone wm), LogStored (take 50 (content wm) @ ''...'')])))"

text \<open>The consumer on a list of batches taken from the queue, in queue order.\<close>

fun consume ::
  "js_env \<Rightarrow> BaileysMessage list \<Rightarrow> db \<Rightarrow> stream_log list \<Rightarrow> bool \<times> db \<times> stream_log list" where
  "consume env [] d lg = (True, d, lg)"
| "consume env (b # bs) d lg =
     (let (records, l) = processBatch env (messages b) in
      case persist_all env records d (lg @ l) of
        (False, d', lg') \<Rightarrow> (False, d', lg')
      | (True, d', lg') \<Rightarrow> consume env bs d' lg')"

text \<open>The invariant of the stored rows that the pipeline keeps: no local identity.\<close>

definition no_local_identity :: "string WhatsAppMessage \<Rightarrow> bool" where
  "no_local_identity r = (if isFromMe r then from_phone r = None else to_phone r = None)"

section \<open>Session connector (whatsapp/Connection.ts)\<close>

datatype status = Connecting | Open | Close | Reconnecting

record 's ConnectionState =
  status :: status
  socket :: "'s option"

text \<open>
  \<^verbatim>\<open>getConnectionState: () => Effect.succeed({ status: "open" as const })\<close>. The argument
  stands for whatever the connection has been through; the code reads none of it.
\<close>

definition getConnectionState :: "'w \<Rightarrow> 's ConnectionState" where
  "getConnectionState w = \<lparr>status = Open, socket = None\<rparr>"

text \<open>
  One run of the acquiring effect of \<^verbatim>\<open>connect\<close>: loading the auth state fails, or creating
  the socket fails, or the socket is returned.
\<close>

datatype connect_error = FailedToLoadAuthState | FailedToCreateSocket

datatype 's attempt = AuthStateFails | SocketFails | Acquired 's

fun attempt_result :: "'s attempt \<Rightarrow> connect_error + 's" where
  "attempt_result AuthStateFails = Inl FailedToLoadAuthState"
| "attempt_result SocketFails = Inl FailedToCreateSocket"
| "attempt_result (Acquired s) = Inr s"

text \<open>
  Schedules of the Effect library, as functions from the number of recurrences made so
  far to the decision: recur after a delay (in milliseconds) or stop.
  \<^verbatim>\<open>Schedule.exponential(base)\<close> always recurs, after \<open>base * 2 ^ k\<close>; \<^verbatim>\<open>Schedule.recurs(n)\<close>
  recurs \<open>n\<close> times; \<^verbatim>\<open>Schedule.intersect\<close> recurs while both do, after the longer delay.
  \<^verbatim>\<open>Schedule.jittered\<close> scales each delay by a random factor and leaves the decision as it
  is; the delays here are the ones before jitter.
\<close>

datatype decision = Recur nat | Stop

definition exponential :: "nat \<Rightarrow> nat \<Rightarrow> decision" where
  "exponential base k = Recur (base * 2 ^ k)"

definition recurs :: "nat \<Rightarrow> nat \<Rightarrow> decision" where
  "recurs n k = (if k < n then Recur 0 else Stop)"

definition intersect :: "(nat \<Rightarrow> decision) \<Rightarrow> (nat \<Rightarrow> decision) \<Rightarrow> nat \<Rightarrow> decision" where
  "intersect s1 s2 k =
     (case s1 k of
        Stop \<Rightarrow> Stop
      | Recur d1 \<Rightarrow> (case s2 k of Stop \<Rightarrow> Stop | Recur d2 \<Rightarrow> Recur (max d1 d2)))"

definition createReconnectionPolicy :: "nat \<Rightarrow> decision" where
  "createReconnectionPolicy = intersect (exponential 1000) (recurs 5)"

text \<open>
  \<^verbatim>\<open>Effect.retry(createReconnectionPolicy)\<close>: the effect is run; when it fails the schedule
  is asked, and the effect is run again or the last failure is returned. \<open>run k\<close> is
  what the attempt after \<open>k\<close> failures does. The result comes with the number of
  attempts started and the delays slept.
\<close>

function retry_from ::
  "(nat \<Rightarrow> 's attempt) \<Rightarrow> nat \<Rightarrow> nat list \<Rightarrow> (connect_error + 's) \<times> nat \<times> nat list" where
  "retry_from run k delays =
     (case attempt_result (run k) of
        Inr s \<Rightarrow> (Inr s, Suc k, delays)
      | Inl e \<Rightarrow>
          (case createReconnectionPolicy k of
             Stop \<Rightarrow> (Inl e, Suc k, delays)
           | Recur d \<Rightarrow> retry_from run (Suc k) (delays @ [d])))"
  by pat_completeness auto
termination
  by (relation "measure (\<lambda>(run, k, delays). 5 - k)")
     (auto simp: createReconnectionPolicy_def intersect_def exponential_def recurs_def
           split: if_splits)

declare retry_from.simps [simp del]

datatype connection_log = LogConnectionFailed connect_error

text \<open>\<^verbatim>\<open>connect\<close>: the retried acquisition, with \<^verbatim>\<open>Effect.tapError\<close> logging the failure.\<close>

definition connect ::
  "(nat \<Rightarrow> 's attempt) \<Rightarrow> (connect_error + 's) \<times> nat \<times> nat list \<times> connection_log list" where
  "connect run =
     (case retry_from run 0 [] of
        (Inl e, n, delays) \<Rightarrow> (Inl e, n, delays, [LogConnectionFailed e])
      | (Inr s, n, delays) \<Rightarrow> (Inr s, n, delays, []))"

section \<open>Auth state store: binary-safe serialization\<close>

text \<open>
  The values the two helpers walk: scalars, byte sequences (\<^verbatim>\<open>Uint8Array\<close>, \<^verbatim>\<open>Buffer\<close>),
  arrays and plain objects. An object is the list of its own enumerable string-keyed
  properties in the order of \<^verbatim>\<open>Object.entries\<close>. Numbers pass through both helpers
  untouched, whatever they are; they are integers here.
\<close>

datatype jsvalue =
    JUndefined
  | JNull
  | JBool bool
  | JNum int
  | JStr string
  | JBytes "8 word list"
  | JArr "jsvalue list"
  | JObj "(string \<times> jsvalue) list"

text \<open>
  \<^verbatim>\<open>result[key] = value\<close> on a plain object: an own property is replaced in place, a new
  one comes last. The key \<^verbatim>\<open>__proto__\<close> reaches the accessor of \<^verbatim>\<open>Object.prototype\<close>
  and defines no own property (the change of prototype is not represented).
\<close>

fun obj_set :: "(string \<times> jsvalue) list \<Rightarrow> string \<Rightarrow> jsvalue \<Rightarrow> (string \<times> jsvalue) list" where
  "obj_set [] k v = (if k = ''__proto__'' then [] else [(k, v)])"
| "obj_set ((k', v') # kvs) k v =
     (if k = ''__proto__'' then (k', v') # kvs
      else if k' = k then (k, v) # kvs
      else (k', v') # obj_set kvs k v)"

text \<open>The object built by assigning the entries, in order, to \<^verbatim>\<open>{}\<close>.\<close>

definition from_entries :: "(string \<times> jsvalue) list \<Rightarrow> (string \<times> jsvalue) list" where
  "from_entries entries = fold (\<lambda>(k, v) result. obj_set result k v) entries []"

text \<open>
  Base64 as the runtime's \<^verbatim>\<open>Buffer\<close> does it: the alphabet of RFC 4648 with \<^verbatim>\<open>=\<close>
  padding on encoding; decoding reads up to the first \<^verbatim>\<open>=\<close>, takes the URL-safe
  characters too and skips every other character.
\<close>

definition b64_char :: "nat \<Rightarrow> char" where
  "b64_char i =
     (if i < 26 then char_of (65 + i)
      else if i < 52 then char_of (71 + i)
      else if i < 62 then char_of (i - 4)
      else if i = 62 then CHR ''+'' else CHR ''/'')"

definition b64_value :: "char \<Rightarrow> nat option" where
  "b64_value c =
     (let n = (of_char c :: nat) in
      if 65 \<le> n \<and> n \<le> 90 then Some (n - 65)
      else if 97 \<le> n \<and> n \<le> 122 then Some (n - 71)
      else if 48 \<le> n \<and> n \<le> 57 then Some (n + 4)
      else if c = CHR ''+'' \<or> c = CHR ''-'' then Some 62
      else if c = CHR ''/'' \<or> c = CHR ''_'' then Some 63
      else None)"

fun base64_encode :: "8 word list \<Rightarrow> string" where
  "base64_encode (a # b # c # rest) =
     [b64_char (unat a div 4), b64_char (unat a mod 4 * 16 + unat b div 16),
      b64_char (unat b mod 16 * 4 + unat c div 64), b64_char (unat c mod 64)]
     @ base64_encode rest"
| "base64_encode [a, b] =
     [b64_char (unat a div 4), b64_char (unat a mod 4 * 16 + unat b div 16),
      b64_char (unat b mod 16 * 4), CHR ''='']"
| "base64_encode [a] =
     [b64_char (unat a div 4), b64_char (unat a mod 4 * 16), CHR ''='', CHR ''='']"
| "base64_encode [] = []"

fun sextets_to_bytes :: "nat list \<Rightarrow> 8 word list" where
  "sextets_to_bytes (p # q # r # s # rest) =
     [of_nat (p * 4 + q div 16), of_nat (q mod 16 * 16 + r div 4), of_nat (r mod 4 * 64 + s)]
     @ sextets_to_bytes rest"
| "sextets_to_bytes [p, q, r] = [of_nat (p * 4 + q div 16), of_nat (q mod 16 * 16 + r div 4)]"
| "sextets_to_bytes [p, q] = [of_nat (p * 4 + q div 16)]"
| "sextets_to_bytes _ = []"

definition base64_decode :: "string \<Rightarrow> 8 word list" where
  "base64_decode s =
     sextets_to_bytes (List.map_filter b64_value (takeWhile (\<lambda>c. c \<noteq> CHR ''='') s))"

text \<open>The decimal numeral of an index, as a property key.\<close>

function decimal :: "nat \<Rightarrow> string" where
  "decimal n = (if n < 10 then [char_of (48 + n)] else decimal (n div 10) @ [char_of (48 + n mod 10)])"
  by pat_completeness auto
termination
  by (relation "measure (\<lambda>n. n)") auto

text \<open>\<^verbatim>\<open>serializeBinaryData\<close>.\<close>

fun serializeBinaryData :: "jsvalue \<Rightarrow> jsvalue" where
  "serializeBinaryData (JBytes bs) =
     JObj [(''__type'', JStr ''binary''), (''data'', JStr (base64_encode bs))]"
| "serializeBinaryData (JArr xs) = JArr (map serializeBinaryData xs)"
| "serializeBinaryData (JObj kvs) =
     JObj (from_entries (map (\<lambda>(k, v). (k, serializeBinaryData v)) kvs))"
| "serializeBinaryData v = v"

text \<open>
  \<^verbatim>\<open>deserializeBinaryData\<close> can throw, in \<^verbatim>\<open>Buffer.from(obj.data, 'base64')\<close>. On a string
  \<^verbatim>\<open>Buffer.from\<close> decodes; what the runtime does there with any other argument is the
  parameter \<open>buffer_from_other\<close>. An exception leaves a \<^verbatim>\<open>map\<close> or a loop at the
  first element that throws.
\<close>

datatype js_error = TypeError

fun sequence_sum :: "('e + 'a) list \<Rightarrow> 'e + 'a list" where
  "sequence_sum [] = Inr []"
| "sequence_sum (x # xs) =
     (case x of
        Inl e \<Rightarrow> Inl e
      | Inr v \<Rightarrow> (case sequence_sum xs of Inl e \<Rightarrow> Inl e | Inr vs \<Rightarrow> Inr (v # vs)))"

definition get_property :: "(string \<times> jsvalue) list \<Rightarrow> string \<Rightarrow> jsvalue" where
  "get_property kvs k = (case map_of kvs k of None \<Rightarrow> JUndefined | Some v \<Rightarrow> v)"

definition buffer_from_base64 ::
  "(jsvalue \<Rightarrow> js_error + 8 word list) \<Rightarrow> jsvalue \<Rightarrow> js_error + 8 word list" where
  "buffer_from_base64 buffer_from_other v =
     (case v of JStr s \<Rightarrow> Inr (base64_decode s) | _ \<Rightarrow> buffer_from_other v)"

fun deserializeBinaryData ::
  "(jsvalue \<Rightarrow> js_error + 8 word list) \<Rightarrow> jsvalue \<Rightarrow> js_error + jsvalue" where
  "deserializeBinaryData bf (JObj kvs) =
     (if get_property kvs ''__type'' = JStr ''binary''
      then (case buffer_from_base64 bf (get_property kvs ''data'') of
              Inl e \<Rightarrow> Inl e
            | Inr bs \<Rightarrow> Inr (JBytes bs))
      else (case sequence_sum
                   (map (\<lambda>(k, v). case deserializeBinaryData bf v of
                                    Inl e \<Rightarrow> Inl e
                                  | Inr v' \<Rightarrow> Inr (k, v')) kvs) of
              Inl e \<Rightarrow> Inl e
            | Inr entries \<Rightarrow> Inr (JObj (from_entries entries))))"
| "deserializeBinaryData bf (JArr xs) =
     (case sequence_sum (map (deserializeBinaryData bf) xs) of
        Inl e \<Rightarrow> Inl e
      | Inr ys \<Rightarrow> Inr (JArr ys))"
| "deserializeBinaryData bf (JBytes bs) =
     Inr (JObj (from_entries (map (\<lambda>i. (decimal i, JNum (uint (bs ! i)))) [0..<length bs])))"
| "deserializeBinaryData bf v = Inr v"

text \<open>
  The representation of an object has each key once. A value is \<open>untagged\<close> when no
  object in it has the own property \<^verbatim>\<open>__type\<close> equal to \<^verbatim>\<open>'binary'\<close> or an own property
  named \<^verbatim>\<open>__proto__\<close>.
\<close>

fun distinct_keys :: "jsvalue \<Rightarrow> bool" where
  "distinct_keys (JArr xs) = list_all distinct_keys xs"
| "distinct_keys (JObj kvs) = (distinct (map fst kvs) \<and> list_all (\<lambda>(k, v). distinct_keys v) kvs)"
| "distinct_keys v = True"

fun untagged :: "jsvalue \<Rightarrow> bool" where
  "untagged (JArr xs) = list_all untagged xs"
| "untagged (JObj kvs) =
     (get_property kvs ''__type'' \<noteq> JStr ''binary'' \<and> ''__proto__'' \<notin> set (map fst kvs) \<and>
      list_all (\<lambda>(k, v). untagged v) kvs)"
| "untagged v = True"

section \<open>Concrete inputs\<close>

text \<open>A stored record, a store that holds it, and the store after the record is marked.\<close>

definition one_row :: "string WhatsAppMessage" where
  "one_row = \<lparr>message_id = ''m1'', from_phone = Some ''555'', to_phone = None, chat_id = ''555@s'',
     timestamp = ''2024-01-01T00:00:00.000Z'', content = ''hi'', messageType = ''text'',
     isFromMe = False, isGroup = False, processed = False, createdAt = ''2024-01-01 00:00:01''\<rparr>"

definition one_row_db :: db where
  "one_row_db = \<lparr>rows = [one_row], faults = [], sql_now = ''2024-01-01 00:00:02''\<rparr>"

definition marked_db :: db where
  "marked_db = \<lparr>rows = [one_row\<lparr>processed := True\<rparr>], faults = [], sql_now = ''2024-01-01 00:00:02''\<rparr>"

text \<open>
  An inbound text event in a direct conversation, the same event without the identifier
  of the message, the same event with a timestamp one second past the range of \<^verbatim>\<open>Date\<close>,
  and an environment.
\<close>

definition scenarioA :: IWebMessageInfo where
  "scenarioA =
     \<lparr>key = Some \<lparr>remoteJid = Some ''555@s'', fromMe = None, key_id = Some ''m1'', participant = None\<rparr>,
      message = Some \<lparr>conversation = Some ''hi'', extendedTextMessage = None, imageMessage = None,
                      videoMessage = None, audioMessage = None, stickerMessage = None,
                      documentMessage = None\<rparr>,
      messageTimestamp = None\<rparr>"

definition without_id :: IWebMessageInfo where
  "without_id =
     \<lparr>key = Some \<lparr>remoteJid = Some ''555@s'', fromMe = None, key_id = None, participant = None\<rparr>,
      message = Some \<lparr>conversation = Some ''hi'', extendedTextMessage = None, imageMessage = None,
                      videoMessage = None, audioMessage = None, stickerMessage = None,
                      documentMessage = None\<rparr>,
      messageTimestamp = None\<rparr>"

definition scenarioA_late :: IWebMessageInfo where
  "scenarioA_late = scenarioA\<lparr>messageTimestamp := Some (Seconds 8640000000001)\<rparr>"

definition env0 :: js_env where
  "env0 = \<lparr>now_iso = ''2024-01-01T00:00:00.000Z'', iso_of_ms = (\<lambda>ms. ''2023-11-14T22:13:20.000Z'')\<rparr>"

text \<open>
  An outbound image with a caption, a batch of two events, and the records the normalizer
  makes of them without a local identity.
\<close>

definition scenarioB :: IWebMessageInfo where
  "scenarioB =
     \<lparr>key = Some \<lparr>remoteJid = Some ''777@s.whatsapp.net'', fromMe = Some True, key_id = Some ''m2'',
                  participant = None\<rparr>,
      message = Some \<lparr>conversation = None, extendedTextMessage = None, imageMessage = Some (Some ''look''),
                      videoMessage = None, audioMessage = None, stickerMessage = None,
                      documentMessage = None\<rparr>,
      messageTimestamp = Some (Seconds 1700000000)\<rparr>"

definition empty_db :: db where
  "empty_db = \<lparr>rows = [], faults = [], sql_now = ''2024-01-01 00:00:02''\<rparr>"

definition batchAB :: BaileysMessage where
  "batchAB = \<lparr>upsert_type = Notify, messages = [scenarioA, scenarioB]\<rparr>"

definition recordA :: "string option InsertMessage" where
  "recordA = \<lparr>message_id = Some ''m1'', from_phone = Some ''555'', to_phone = None,
     chat_id = ''555@s'', timestamp = ''2024-01-01T00:00:00.000Z'', content = ''hi'',
     messageType = ''text'', isFromMe = False, isGroup = False, processed = False\<rparr>"

definition recordB :: "string option InsertMessage" where
  "recordB = \<lparr>message_id = Some ''m2'', from_phone = None, to_phone = Some ''777'',
     chat_id = ''777@s.whatsapp.net'', timestamp = ''2023-11-14T22:13:20.000Z'', content = ''look'',
     messageType = ''image'', isFromMe = True, isGroup = False, processed = False\<rparr>"





text \<open>Runs of \<open>connect\<close> in which every attempt fails.\<close>

definition always_refused :: "nat \<Rightarrow> unit attempt" where
  "always_refused k = SocketFails"

definition never_loads :: "nat \<Rightarrow> unit attempt" where
  "never_loads k = AuthStateFails"

text \<open>
  A runtime whose \<^verbatim>\<open>Buffer.from\<close> refuses every argument that is not a string, a credential
  blob with nested byte sequences, a plain object that looks like the wrapper of a byte
  sequence, and an object with an own property \<^verbatim>\<open>__proto__\<close>.
\<close>

definition no_buffer :: "jsvalue \<Rightarrow> js_error + 8 word list" where
  "no_buffer v = Inl TypeError"

definition creds :: jsvalue where
  "creds = JObj [(''noiseKey'', JObj [(''private'', JBytes [1, 2, 3]), (''public'', JBytes [255, 0])]),
                 (''registrationId'', JNum 42),
                 (''preKeys'', JArr [JBytes [], JNull, JStr ''binary'', JBytes [7]])]"

definition tagged_object :: jsvalue where
  "tagged_object = JObj [(''__type'', JStr ''binary''), (''data'', JStr '''')]"

definition proto_object :: jsvalue where
  "proto_object = JObj [(''__proto__'', JNum 1)]"

section \<open>Properties of the repository and the scheduler\<close>

lemma rows_next_statement: "rows (snd (next_statement d)) = rows d"
  by (simp add: next_statement_def split: list.splits)

lemma same_but_processed_refl: "same_but_processed r r"
  by (simp add: same_but_processed_def)

lemma same_but_processed_trans:
  "same_but_processed r s \<Longrightarrow> same_but_processed s t \<Longrightarrow> same_but_processed r t"
  by (simp add: same_but_processed_def)

lemma frame_refl: "list_all2 same_but_processed rs rs"
  by (simp add: list_all2_same same_but_processed_refl)

lemma frame_trans:
  "list_all2 same_but_processed rs ss \<Longrightarrow> list_all2 same_but_processed ss ts \<Longrightarrow>
   list_all2 same_but_processed rs ts"
proof (induction rs ss arbitrary: ts rule: list_all2_induct)
  case Nil
  then show ?case by simp
next
  case (Cons r rs s ss)
  from Cons.prems obtain t ts' where ts: "ts = t # ts'" "same_but_processed s t"
    "list_all2 same_but_processed ss ts'"
    by (auto simp: list_all2_Cons1)
  with Cons show ?case by (auto intro: same_but_processed_trans)
qed

lemma frame_markAsProcessed:
  "list_all2 same_but_processed (rows d) (rows (snd (markAsProcessed i d)))"
proof (cases "next_statement d")
  case (Pair f d')
  have r: "rows d' = rows d" using rows_next_statement [of d] Pair by simp
  show ?thesis
  proof (cases f)
    case True
    with Pair r show ?thesis by (simp add: markAsProcessed_def frame_refl)
  next
    case False
    have "list_all2 same_but_processed (rows d)
            (set_processed i (rows d))"
      by (simp add: set_processed_def list_all2_map2 list_all2_same same_but_processed_def)
    with Pair r False show ?thesis by (simp add: markAsProcessed_def Let_def)
  qed
qed

lemma frame_log_and_mark:
  "list_all2 same_but_processed (rows d) (rows (fst (snd (log_and_mark ms d lg))))"
proof (induction ms arbitrary: d lg)
  case Nil
  show ?case by (simp add: frame_refl)
next
  case (Cons m ms)
  obtain res d' where m: "markAsProcessed (message_id m) d = (res, d')"
    by (cases "markAsProcessed (message_id m) d")
  have step: "list_all2 same_but_processed (rows d) (rows d')"
    using frame_markAsProcessed [of d "message_id m"] m by simp
  show ?case
  proof (cases res)
    case (Inl e)
    with m step show ?thesis by simp
  next
    case (Inr x)
    have "list_all2 same_but_processed (rows d')
            (rows (fst (snd (log_and_mark ms d' (lg @ [summary m])))))"
      by (rule Cons.IH)
    with step have "list_all2 same_but_processed (rows d)
            (rows (fst (snd (log_and_mark ms d' (lg @ [summary m])))))"
      by (rule frame_trans)
    with m Inr show ?thesis by simp
  qed
qed

lemma rows_getUnprocessedMessages: "rows (snd (getUnprocessedMessages d)) = rows d"
  using rows_next_statement [of d]
  by (cases "next_statement d") (auto simp: getUnprocessedMessages_def split: bool.splits)

lemma frame_logUnprocessedMessages:
  "list_all2 same_but_processed (rows d) (rows (fst (snd (logUnprocessedMessages d lg))))"
proof (cases "getUnprocessedMessages d")
  case (Pair res d')
  have r: "rows d' = rows d" using rows_getUnprocessedMessages [of d] Pair by simp
  show ?thesis
  proof (cases res)
    case (Inl e)
    with Pair r show ?thesis by (simp add: logUnprocessedMessages_def frame_refl)
  next
    case (Inr ms)
    let ?lm = "log_and_mark ms d' (lg @ [LogFound (length ms)])"
    have f: "list_all2 same_but_processed (rows d) (rows (fst (snd ?lm)))"
      using frame_log_and_mark [of d' ms] r by simp
    obtain a b c where lm: "?lm = (a, b, c)" by (cases ?lm)
    with f Pair Inr r show ?thesis
      by (cases a) (auto simp: logUnprocessedMessages_def frame_refl)
  qed
qed

lemma frame_sweep: "list_all2 same_but_processed (rows d) (rows (fst (sweep d lg)))"
proof -
  obtain a b c where l: "logUnprocessedMessages d lg = (a, b, c)"
    by (cases "logUnprocessedMessages d lg")
  with frame_logUnprocessedMessages [of d lg] show ?thesis
    by (cases a) (simp_all add: sweep_def)
qed

lemma frame_createdAt:
  "list_all2 same_but_processed rs ss \<Longrightarrow> map createdAt ss = map createdAt rs"
  by (induction rule: list_all2_induct) (simp_all add: same_but_processed_def)

text \<open>
  C8. \<open>markAsProcessed\<close> changes no field of any stored record but \<open>processed\<close>: the
  table before and after the call agree, row by row, on \<open>id\<close>, \<open>from\<close>, \<open>to\<close>,
  \<open>chat_id\<close>, \<open>timestamp\<close>, \<open>content\<close>, \<open>messageType\<close>, \<open>isFromMe\<close>, \<open>isGroup\<close> and
  \<open>createdAt\<close>. The same holds for a whole sweep of the scheduler, whichever statements
  the storage layer fails, so every record keeps the \<open>createdAt\<close> of its insertion.
\<close>

theorem C8_markAsProcessed_frame:
  "list_all2 same_but_processed (rows d) (rows (snd (markAsProcessed i d))) \<and>
   list_all2 same_but_processed (rows d) (rows (fst (sweep d lg))) \<and>
   map createdAt (rows (fst (sweep d lg))) = map createdAt (rows d)"
  using frame_markAsProcessed [of d i] frame_sweep [of d lg] frame_createdAt by blast

lemma set_processed_idem: "set_processed i (set_processed i rs) = set_processed i rs"
  by (induction rs) (simp_all add: set_processed_def)

lemma set_processed_absent: "i \<notin> message_id ` set rs \<Longrightarrow> set_processed i rs = rs"
  by (induction rs) (auto simp: set_processed_def)

lemma filter_absent: "i \<notin> message_id ` set rs \<Longrightarrow> filter (\<lambda>r. message_id r = i) rs = []"
  by (induction rs) auto

lemma set_processed_sets:
  assumes "r \<in> set (set_processed i rs)" and "message_id r = i"
  shows "processed r"
proof -
  from assms(1) have "r \<in> (\<lambda>r. if message_id r = i then r\<lparr>processed := True\<rparr> else r) ` set rs"
    unfolding set_processed_def by (simp only: set_map)
  then obtain r0 where r0: "r = (if message_id r0 = i then r0\<lparr>processed := True\<rparr> else r0)"
    by (rule imageE)
  show ?thesis
  proof (cases "message_id r0 = i")
    case True
    with r0 show ?thesis by simp
  next
    case False
    with r0 assms(2) show ?thesis by simp
  qed
qed

lemma markAsProcessed_unfold:
  "next_statement d = (f, d') \<Longrightarrow>
   markAsProcessed i d =
     (if f then (Inl SqlError, d')
      else (Inr (case filter (\<lambda>r. message_id r = i) (set_processed i (rows d)) of
                   [] \<Rightarrow> None | r # _ \<Rightarrow> Some r),
            d'\<lparr>rows := set_processed i (rows d)\<rparr>))"
  using rows_next_statement [of d]
  by (simp add: markAsProcessed_def Let_def)

text \<open>
  C5 (amended). After a successful \<open>markAsProcessed\<close>, a second call on the same identifier
  that the storage layer does not fail succeeds with the same result and leaves the table
  as it is, the record still processed. For an identifier that is not in the table the
  call succeeds as well: it returns no record (\<^verbatim>\<open>undefined\<close>) and leaves the table as it
  is. There is no \<^verbatim>\<open>NotFound\<close> failure.
\<close>

theorem C5_markAsProcessed_twice_and_unknown:
  "(markAsProcessed i d = (Inr res, d1) \<and> next_statement d1 = (False, d2) \<longrightarrow>
      markAsProcessed i d1 = (Inr res, d2) \<and> rows d2 = rows d1 \<and>
      (\<forall>r \<in> set (rows d2). message_id r = i \<longrightarrow> processed r) \<and>
      (\<forall>r. res = Some r \<longrightarrow> processed r)) \<and>
   (i \<notin> message_id ` set (rows d) \<and> next_statement d = (False, d') \<longrightarrow>
      markAsProcessed i d = (Inr None, d') \<and> rows d' = rows d)"
proof (intro conjI impI)
  assume a: "markAsProcessed i d = (Inr res, d1) \<and> next_statement d1 = (False, d2)"
  obtain f d0 where n: "next_statement d = (f, d0)" by (cases "next_statement d")
  from a have m: "markAsProcessed i d = (Inr res, d1)" by simp
  from m have f: "\<not> f" unfolding markAsProcessed_unfold [OF n] by (cases f) simp_all
  from m f have d1: "d1 = d0\<lparr>rows := set_processed i (rows d)\<rparr>"
    and res: "res = (case filter (\<lambda>r. message_id r = i) (set_processed i (rows d)) of
                       [] \<Rightarrow> None | r # _ \<Rightarrow> Some r)"
    unfolding markAsProcessed_unfold [OF n] by simp_all
  have r1: "rows d1 = set_processed i (rows d)" using d1 by simp
  from a have n2: "next_statement d1 = (False, d2)" by simp
  have r2: "rows d2 = rows d1" using rows_next_statement [of d1] n2 by simp
  then show "rows d2 = rows d1" .
  have "d2\<lparr>rows := rows d2\<rparr> = d2" by simp
  then have same: "d2\<lparr>rows := set_processed i (rows d1)\<rparr> = d2"
    by (simp only: r1 r2 set_processed_idem)
  show "markAsProcessed i d1 = (Inr res, d2)"
    unfolding markAsProcessed_unfold [OF n2] same
    by (simp only: res r1 set_processed_idem if_False)
  show "\<forall>r \<in> set (rows d2). message_id r = i \<longrightarrow> processed r"
    using set_processed_sets [of _ i "rows d"] by (simp only: r2 r1) blast
  show "\<forall>r. res = Some r \<longrightarrow> processed r"
  proof (intro allI impI)
    fix r assume "res = Some r"
    with res have "r \<in> set (filter (\<lambda>r. message_id r = i) (set_processed i (rows d)))"
      by (cases "filter (\<lambda>r. message_id r = i) (set_processed i (rows d))") simp_all
    then have "r \<in> set (set_processed i (rows d))" and "message_id r = i" by simp_all
    then show "processed r" by (rule set_processed_sets)
  qed
next
  assume a: "i \<notin> message_id ` set (rows d) \<and> next_statement d = (False, d')"
  then have n: "next_statement d = (False, d')" by simp
  have r: "rows d' = rows d" using rows_next_statement [of d] n by simp
  then show "rows d' = rows d" .
  have "d'\<lparr>rows := rows d'\<rparr> = d'" by simp
  then have same: "d'\<lparr>rows := rows d\<rparr> = d'" by (simp only: r)
  from a have ab: "i \<notin> message_id ` set (rows d)" by simp
  show "markAsProcessed i d = (Inr None, d')"
    unfolding markAsProcessed_unfold [OF n]
    by (simp add: set_processed_absent [OF ab] filter_absent [OF ab] same)
qed
text \<open>Marking an unknown identifier succeeds, with no record.\<close>

theorem C5_unknown_id_counterexample:
  "markAsProcessed ''m2'' one_row_db = (Inr None, one_row_db)"
  by (simp add: markAsProcessed_def set_processed_def next_statement_def one_row_db_def one_row_def)

lemma ex_first: "markAsProcessed ''m1'' one_row_db = (Inr (Some (one_row\<lparr>processed := True\<rparr>)), marked_db)"
  by (simp add: markAsProcessed_def set_processed_def next_statement_def one_row_db_def marked_db_def one_row_def)

lemma ex_next: "next_statement marked_db = (False, marked_db)"
  by (simp add: next_statement_def marked_db_def)

lemma ex_next1: "next_statement one_row_db = (False, one_row_db)"
  by (simp add: next_statement_def one_row_db_def)

lemma ex_absent: "''m2'' \<notin> message_id ` set (rows one_row_db)"
  by (simp add: one_row_db_def one_row_def)

text \<open>The theorem at the store of one record, for its identifier and for an unknown one.\<close>

theorem C5_witness:
  "markAsProcessed ''m1'' one_row_db = (Inr (Some (one_row\<lparr>processed := True\<rparr>)), marked_db) \<and>
   next_statement marked_db = (False, marked_db) \<and>
   markAsProcessed ''m1'' marked_db = (Inr (Some (one_row\<lparr>processed := True\<rparr>)), marked_db) \<and>
   ''m2'' \<notin> message_id ` set (rows one_row_db) \<and>
   next_statement one_row_db = (False, one_row_db) \<and>
   markAsProcessed ''m2'' one_row_db = (Inr None, one_row_db)"
  using C5_markAsProcessed_twice_and_unknown
          [where i = "''m1''" and d = one_row_db and res = "Some (one_row\<lparr>processed := True\<rparr>)"
             and ?d1.0 = marked_db and ?d2.0 = marked_db and d' = one_row_db]
        C5_markAsProcessed_twice_and_unknown
          [where i = "''m2''" and d = one_row_db and res = "None"
             and ?d1.0 = marked_db and ?d2.0 = marked_db and d' = one_row_db]
        ex_first ex_next ex_next1 ex_absent
  by simp



text \<open>
  In a sweep that the storage layer does not fail, the loop logs the summary of every
  record it was given, in order, and ends without error.
\<close>

lemma log_and_mark_summaries:
  "faults d = [] \<Longrightarrow>
   fst (log_and_mark ms d lg) = Inr () \<and> snd (snd (log_and_mark ms d lg)) = lg @ map summary ms"
proof (induction ms arbitrary: d lg)
  case Nil
  show ?case by simp
next
  case (Cons m ms)
  from Cons.prems have n: "next_statement d = (False, d)" by (simp add: next_statement_def)
  let ?d' = "d\<lparr>rows := set_processed (message_id m) (rows d)\<rparr>"
  have f: "faults ?d' = []" using Cons.prems by simp
  have "\<exists>res. markAsProcessed (message_id m) d = (Inr res, ?d')"
    using n by (simp add: markAsProcessed_def Let_def)
  then obtain res where "markAsProcessed (message_id m) d = (Inr res, ?d')" ..
  then have "log_and_mark (m # ms) d lg = log_and_mark ms ?d' (lg @ [summary m])" by simp
  with Cons.IH [OF f, of "lg @ [summary m]"] show ?case by simp
qed

section \<open>Properties of the connector\<close>

text \<open>
  C9. \<open>getConnectionState\<close> returns the constant \<^verbatim>\<open>{ status: "open" }\<close>, with no socket,
  whatever the connection has been through: the same before \<^verbatim>\<open>connect\<close> was ever called
  and after the transport has closed.
\<close>

theorem C9_getConnectionState_constant:
  "getConnectionState w = \<lparr>status = Open, socket = None\<rparr> \<and>
   getConnectionState w = getConnectionState w' \<and>
   status (getConnectionState w) \<noteq> Close \<and> socket (getConnectionState w) = None"
  by (simp add: getConnectionState_def)

section \<open>Properties of the normalizer and the pipeline\<close>

text \<open>
  C4. An event whose key has a conversation identifier and no message identifier is not
  turned into \<^verbatim>\<open>null\<close>: the normalizer returns a record whose \<open>id\<close> is absent.
\<close>

theorem C4_missing_id_still_normalized:
  "extractMessageDataEffect env without_id myNumber =
     (Some \<lparr>message_id = None, from_phone = Some ''555'',
            to_phone = (if truthy myNumber then extractNumber myNumber else None),
            chat_id = ''555@s'', timestamp = now_iso env, content = ''hi'', messageType = ''text'',
            isFromMe = False, isGroup = False, processed = False\<rparr>, [])"
  by (simp add: extractMessageDataEffect_def without_id_def truthy_def timestamp_of_def
        extractNumber_def content_and_type_def Let_def)

text \<open>
  What the guard of the normalizer does cover: without a key, or without a conversation
  identifier in it, the result is \<^verbatim>\<open>null\<close>.
\<close>

lemma extract_absent:
  "key msg = None \<or> (\<exists>k. key msg = Some k \<and> \<not> truthy (remoteJid k)) \<Longrightarrow>
   extractMessageDataEffect env msg myNumber = (None, [])"
  by (auto simp: extractMessageDataEffect_def)

lemma takeWhile_excludes: "c \<notin> set (takeWhile (\<lambda>x. x \<noteq> c) xs)"
  by (induction xs) auto

lemma extractNumber_stripped:
  assumes a: "extractNumber (Some s) = Some n"
  shows "CHR ''@'' \<notin> set n \<and> CHR '':'' \<notin> set n \<and> (\<exists>rest. s = n @ rest)"
proof -
  let ?u = "takeWhile (\<lambda>c. c \<noteq> CHR ''@'') s"
  from a have n: "n = takeWhile (\<lambda>c. c \<noteq> CHR '':'') ?u"
    by (simp add: extractNumber_def truthy_def Let_def split: if_splits)
  have 1: "CHR '':'' \<notin> set n"
    unfolding n by (rule takeWhile_excludes)
  have u: "CHR ''@'' \<notin> set ?u" by (rule takeWhile_excludes)
  have 2: "CHR ''@'' \<notin> set n"
  proof
    assume "CHR ''@'' \<in> set n"
    then have "CHR ''@'' \<in> set ?u" unfolding n by (rule set_takeWhileD [THEN conjunct1])
    with u show False by simp
  qed
  have su: "s = ?u @ dropWhile (\<lambda>c. c \<noteq> CHR ''@'') s"
    by (rule takeWhile_dropWhile_id [symmetric])
  have un: "?u = n @ dropWhile (\<lambda>c. c \<noteq> CHR '':'') ?u"
    unfolding n by (rule takeWhile_dropWhile_id [symmetric])
  have "s = n @ (dropWhile (\<lambda>c. c \<noteq> CHR '':'') ?u @ dropWhile (\<lambda>c. c \<noteq> CHR ''@'') s)"
    by (subst su, subst un) simp
  then have 3: "\<exists>rest. s = n @ rest" by (rule exI)
  from 1 2 3 show ?thesis by simp
qed

lemma extractNumber_myNumber:
  "(if truthy (Some my) then extractNumber (Some my) else None) = extractNumber (Some my)"
  by (simp add: extractNumber_def)

lemma extract_inbound_direct:
  assumes "key msg = Some k" and "remoteJid k = Some chatId" and "chatId \<noteq> []"
    and "fromMe k \<noteq> Some True" and "\<not> includes_str chatId ''@g.us''"
    and "timestamp_of env (messageTimestamp msg) = Some ts"
  shows "extractMessageDataEffect env msg myNumber =
     (Some \<lparr>message_id = key_id k, from_phone = extractNumber (Some chatId),
            to_phone = (if truthy myNumber then extractNumber myNumber else None),
            chat_id = chatId, timestamp = ts, content = fst (content_and_type (message msg)),
            messageType = snd (content_and_type (message msg)),
            isFromMe = False, isGroup = False, processed = False\<rparr>, [])"
proof -
  have f: "(case fromMe k of None \<Rightarrow> False | Some b \<Rightarrow> b) = False"
    using assms(4) by (cases "fromMe k") auto
  have t: "truthy (remoteJid k)" using assms(2,3) by (simp add: truthy_def)
  show ?thesis
    using assms(1,2,5,6) f t by (simp add: extractMessageDataEffect_def Let_def)
qed

lemma content_conversation:
  "message msg = Some mi \<Longrightarrow> conversation mi = Some t \<Longrightarrow> t \<noteq> [] \<Longrightarrow>
   content_and_type (message msg) = (t, ''text'')"
  by (simp add: content_and_type_def truthy_def)

lemma in_date_range_formats:
  "in_date_range ts \<Longrightarrow> \<exists>s. timestamp_of env ts = Some s"
proof (cases ts)
  case None
  then show ?thesis by (simp add: timestamp_of_def)
next
  case (Some v)
  assume r: "in_date_range ts"
  show ?thesis
  proof (cases v)
    case (Seconds t)
    with Some r show ?thesis by (simp add: timestamp_of_def format_seconds_def in_date_range_def)
  next
    case (LongSeconds t)
    with Some r show ?thesis by (simp add: timestamp_of_def format_seconds_def in_date_range_def)
  qed
qed

text \<open>
  C6 (amended). For an inbound event of a direct conversation (the key has a conversation
  identifier without \<^verbatim>\<open>@g.us\<close>, \<open>fromMe\<close> is not set) whose timestamp is absent or within
  the range of \<^verbatim>\<open>Date\<close>, normalized with a local identity: the sender is the conversation
  identifier and the recipient is the local identity, each cut at its first \<^verbatim>\<open>@\<close> and
  first \<^verbatim>\<open>:\<close> (\<^verbatim>\<open>null\<close> when nothing is left). In particular the text event \<^verbatim>\<open>hi\<close> of
  conversation \<^verbatim>\<open>555@s\<close> with local identity \<^verbatim>\<open>999\<close> gives \<open>from = 555\<close>, \<open>to = 999\<close>,
  \<open>content = hi\<close>, \<open>type = text\<close> and \<open>isFromMe = false\<close>.
\<close>

theorem C6_inbound_direct_sender_recipient:
  assumes "key msg = Some k" and "remoteJid k = Some chatId" and "chatId \<noteq> []"
    and "fromMe k \<noteq> Some True" and "\<not> includes_str chatId ''@g.us''"
    and "in_date_range (messageTimestamp msg)"
  shows "\<exists>r. extractMessageDataEffect env msg (Some my) = (Some r, []) \<and>
           \<not> isFromMe r \<and> \<not> isGroup r \<and> chat_id r = chatId \<and> message_id r = key_id k \<and>
           from_phone r = extractNumber (Some chatId) \<and>
           to_phone r = extractNumber (Some my) \<and>
           (\<forall>n. from_phone r = Some n \<longrightarrow>
                CHR ''@'' \<notin> set n \<and> CHR '':'' \<notin> set n \<and> (\<exists>rest. chatId = n @ rest)) \<and>
           (\<forall>n. to_phone r = Some n \<longrightarrow>
                CHR ''@'' \<notin> set n \<and> CHR '':'' \<notin> set n \<and> (\<exists>rest. my = n @ rest)) \<and>
           (chatId = ''555@s'' \<and> my = ''999'' \<and>
            (\<exists>mi. message msg = Some mi \<and> conversation mi = Some ''hi'') \<longrightarrow>
              from_phone r = Some ''555'' \<and> to_phone r = Some ''999'' \<and> content r = ''hi'' \<and>
              messageType r = ''text'' \<and> isFromMe r = False)"
proof -
  from assms(6) obtain ts where ts: "timestamp_of env (messageTimestamp msg) = Some ts"
    using in_date_range_formats by blast
  let ?r = "\<lparr>message_id = key_id k, from_phone = extractNumber (Some chatId),
            to_phone = extractNumber (Some my),
            chat_id = chatId, timestamp = ts, content = fst (content_and_type (message msg)),
            messageType = snd (content_and_type (message msg)),
            isFromMe = False, isGroup = False, processed = False\<rparr>"
  have e: "extractMessageDataEffect env msg (Some my) = (Some ?r, [])"
    using extract_inbound_direct [OF assms(1-5) ts, of "Some my"]
    by (simp only: extractNumber_myNumber)
  have s: "chatId = ''555@s'' \<and> my = ''999'' \<and>
            (\<exists>mi. message msg = Some mi \<and> conversation mi = Some ''hi'') \<longrightarrow>
              from_phone ?r = Some ''555'' \<and> to_phone ?r = Some ''999'' \<and> content ?r = ''hi'' \<and>
              messageType ?r = ''text'' \<and> isFromMe ?r = False"
  proof (intro impI)
    assume h: "chatId = ''555@s'' \<and> my = ''999'' \<and>
            (\<exists>mi. message msg = Some mi \<and> conversation mi = Some ''hi'')"
    then obtain mi where mi: "message msg = Some mi" "conversation mi = Some ''hi''" by blast
    have c: "content_and_type (message msg) = (''hi'', ''text'')"
      using content_conversation [OF mi] by simp
    have "extractNumber (Some ''555@s'') = Some ''555''" "extractNumber (Some ''999'') = Some ''999''"
      by (simp_all add: extractNumber_def truthy_def)
    with h c show "from_phone ?r = Some ''555'' \<and> to_phone ?r = Some ''999'' \<and> content ?r = ''hi'' \<and>
              messageType ?r = ''text'' \<and> isFromMe ?r = False"
      by simp
  qed
  have p: "\<forall>n. from_phone ?r = Some n \<longrightarrow>
                CHR ''@'' \<notin> set n \<and> CHR '':'' \<notin> set n \<and> (\<exists>rest. chatId = n @ rest)"
    using extractNumber_stripped [of chatId] by simp
  have q: "\<forall>n. to_phone ?r = Some n \<longrightarrow>
                CHR ''@'' \<notin> set n \<and> CHR '':'' \<notin> set n \<and> (\<exists>rest. my = n @ rest)"
    using extractNumber_stripped [of my] by simp
  show ?thesis
    apply (rule exI [of _ ?r])
    using e s p q apply simp
    done
qed

lemma scenarioA_facts:
  "key scenarioA = Some \<lparr>remoteJid = Some ''555@s'', fromMe = None, key_id = Some ''m1'', participant = None\<rparr>"
  "message scenarioA = Some \<lparr>conversation = Some ''hi'', extendedTextMessage = None, imageMessage = None,
                      videoMessage = None, audioMessage = None, stickerMessage = None,
                      documentMessage = None\<rparr>"
  "in_date_range (messageTimestamp scenarioA)"
  by (simp_all add: scenarioA_def in_date_range_def)

text \<open>Scenario A itself, with identifier \<^verbatim>\<open>m1\<close> and no timestamp.\<close>

theorem C6_scenario_A_witness:
  "\<exists>r. extractMessageDataEffect env0 scenarioA (Some ''999'') = (Some r, []) \<and>
       from_phone r = Some ''555'' \<and> to_phone r = Some ''999'' \<and> content r = ''hi'' \<and>
       messageType r = ''text'' \<and> isFromMe r = False"
proof -
  have i: "\<not> includes_str ''555@s'' ''@g.us''" by simp
  from C6_inbound_direct_sender_recipient
         [where msg = scenarioA and env = env0 and chatId = "''555@s''" and my = "''999''",
          OF scenarioA_facts(1) _ _ _ i scenarioA_facts(3)]
  obtain r where r: "extractMessageDataEffect env0 scenarioA (Some ''999'') = (Some r, [])"
    and c: "''555@s'' = ''555@s'' \<and> ''999'' = ''999'' \<and>
            (\<exists>mi. message scenarioA = Some mi \<and> conversation mi = Some ''hi'') \<longrightarrow>
              from_phone r = Some ''555'' \<and> to_phone r = Some ''999'' \<and> content r = ''hi'' \<and>
              messageType r = ''text'' \<and> isFromMe r = False"
    by force
  have "\<exists>mi. message scenarioA = Some mi \<and> conversation mi = Some ''hi''"
    by (simp add: scenarioA_facts(2))
  with c r show ?thesis by blast
qed

text \<open>
  C6, the claim as stated fails. Scenario A with a timestamp one second past the range
  of \<^verbatim>\<open>Date\<close>: formatting the timestamp throws, the \<^verbatim>\<open>catch\<close> block logs, and the result
  is \<^verbatim>\<open>null\<close>, not a record.
\<close>

theorem C6_late_timestamp_counterexample:
  "extractMessageDataEffect env0 scenarioA_late (Some ''999'') = (None, [LogErrorExtracting])"
  by (simp add: extractMessageDataEffect_def scenarioA_late_def scenarioA_def truthy_def
        timestamp_of_def format_seconds_def)

lemma extract_without_identity:
  assumes "extractMessageDataEffect env msg None = (Some r, l)"
  shows "if isFromMe r then from_phone r = None else to_phone r = None"
proof -
  from assms obtain k where k: "key msg = Some k"
    by (cases "key msg") (simp_all add: extractMessageDataEffect_def)
  from assms k have t: "truthy (remoteJid k)"
    by (cases "truthy (remoteJid k)") (simp_all add: extractMessageDataEffect_def)
  from assms k t obtain ts where ts: "timestamp_of env (messageTimestamp msg) = Some ts"
    by (cases "timestamp_of env (messageTimestamp msg)") (simp_all add: extractMessageDataEffect_def)
  have n: "\<not> truthy None" by (simp add: truthy_def)
  from assms k t ts n show ?thesis
    by (cases "case fromMe k of None \<Rightarrow> False | Some b \<Rightarrow> b")
       (auto simp: extractMessageDataEffect_def Let_def)
qed

lemma processBatch_without_identity:
  "r \<in> set (fst (processBatch env msgs)) \<Longrightarrow>
   (if isFromMe r then from_phone r = None else to_phone r = None)"
proof (induction msgs)
  case Nil
  then show ?case by simp
next
  case (Cons m ms)
  obtain more lg' where rest: "processBatch env ms = (more, lg')" by (cases "processBatch env ms")
  obtain res l where e: "extractMessageDataEffect env m None = (res, l)"
    by (cases "extractMessageDataEffect env m None")
  from Cons.prems rest e have "r \<in> set more \<or> res = Some r"
    by (auto split: if_splits option.splits)
  then show ?case
  proof
    assume "r \<in> set more"
    with Cons.IH rest show ?thesis by simp
  next
    assume "res = Some r"
    with e show ?thesis using extract_without_identity by blast
  qed
qed

lemma make_copies:
  "make_WhatsAppMessage env m = Some wm \<Longrightarrow>
   isFromMe wm = isFromMe m \<and> from_phone wm = from_phone m \<and> to_phone wm = to_phone m"
  by (cases "message_id m") (auto simp: make_WhatsAppMessage_def)

lemma insertMessage_rows:
  "\<exists>new. rows (snd (insertMessage wm d)) = rows d @ new \<and>
         (\<forall>row \<in> set new. isFromMe row = isFromMe wm \<and> from_phone row = from_phone wm \<and>
                             to_phone row = to_phone wm)"
proof (cases "next_statement d")
  case (Pair f d')
  have r: "rows d' = rows d" using rows_next_statement [of d] Pair by simp
  show ?thesis
  proof (cases "f \<or> message_id wm \<in> set (map message_id (rows d'))")
    case True
    with Pair r have "rows (snd (insertMessage wm d)) = rows d @ []"
      by (cases f) (simp_all add: insertMessage_def)
    then show ?thesis by (intro exI [of _ "[]"]) simp
  next
    case False
    let ?row = "\<lparr>message_id = message_id wm, from_phone = from_phone wm,
                       to_phone = to_phone wm, chat_id = chat_id wm,
                       timestamp = timestamp wm, content = content wm,
                       messageType = messageType wm, isFromMe = isFromMe wm,
                       isGroup = isGroup wm, processed = processed wm,
                       createdAt = sql_now d'\<rparr>"
    from False Pair r have "rows (snd (insertMessage wm d)) = rows d @ [?row]"
      by (simp add: insertMessage_def Let_def)
    then show ?thesis by (intro exI [of _ "[?row]"]) simp
  qed
qed

lemma persist_all_rows:
  "\<forall>m \<in> set ms. (if isFromMe m then from_phone m = None else to_phone m = None) \<Longrightarrow>
   \<exists>new. rows (fst (snd (persist_all env ms d lg))) = rows d @ new \<and> list_all no_local_identity new"
proof (induction ms arbitrary: d lg)
  case Nil
  show ?case by (intro exI [of _ "[]"]) simp
next
  case (Cons m ms)
  show ?case
  proof (cases "make_WhatsAppMessage env m")
    case None
    then have "rows (fst (snd (persist_all env (m # ms) d lg))) = rows d @ []" by simp
    then show ?thesis by (intro exI [of _ "[]"]) simp
  next
    case (Some wm)
    from Cons.prems have pm: "if isFromMe m then from_phone m = None else to_phone m = None"
      by simp
    obtain res d' where i: "insertMessage wm d = (res, d')" by (cases "insertMessage wm d")
    from insertMessage_rows [of wm d] i obtain new1 where
      n1: "rows d' = rows d @ new1"
      and c1: "\<forall>row \<in> set new1. isFromMe row = isFromMe wm \<and> from_phone row = from_phone wm \<and>
                             to_phone row = to_phone wm"
      by auto
    have l1: "list_all no_local_identity new1"
      unfolding list_all_iff no_local_identity_def
      using c1 make_copies [OF Some] pm by simp
    from Cons.prems have rest: "\<forall>m \<in> set ms. (if isFromMe m then from_phone m = None else to_phone m = None)"
      by simp
    obtain lg' where step: "persist_all env (m # ms) d lg = persist_all env ms d' lg'"
      using Some i by (cases res) simp_all
    from Cons.IH [OF rest, of d' lg'] obtain new2 where
      n2: "rows (fst (snd (persist_all env ms d' lg'))) = rows d' @ new2"
      and l2: "list_all no_local_identity new2"
      by blast
    have "rows (fst (snd (persist_all env (m # ms) d lg))) = rows d @ (new1 @ new2)"
      using step n1 n2 by simp
    moreover have "list_all no_local_identity (new1 @ new2)" using l1 l2 by simp
    ultimately show ?thesis by blast
  qed
qed

lemma consume_rows:
  "\<exists>new. rows (fst (snd (consume env bs d lg))) = rows d @ new \<and> list_all no_local_identity new"
proof (induction bs arbitrary: d lg)
  case Nil
  show ?case by (intro exI [of _ "[]"]) simp
next
  case (Cons b bs)
  obtain records l where pb: "processBatch env (messages b) = (records, l)"
    by (cases "processBatch env (messages b)")
  have "\<forall>m \<in> set records. (if isFromMe m then from_phone m = None else to_phone m = None)"
    using processBatch_without_identity [of _ env "messages b"] pb by simp
  from persist_all_rows [OF this, of env d "lg @ l"] obtain new1 where
    n1: "rows (fst (snd (persist_all env records d (lg @ l)))) = rows d @ new1"
    and l1: "list_all no_local_identity new1"
    by blast
  obtain ok d' lg' where pa: "persist_all env records d (lg @ l) = (ok, d', lg')"
    by (cases "persist_all env records d (lg @ l)")
  show ?case
  proof (cases ok)
    case False
    with pb pa n1 have "rows (fst (snd (consume env (b # bs) d lg))) = rows d @ new1" by simp
    with l1 show ?thesis by blast
  next
    case True
    from Cons.IH [of d' lg'] obtain new2 where
      n2: "rows (fst (snd (consume env bs d' lg'))) = rows d' @ new2"
      and l2: "list_all no_local_identity new2"
      by blast
    from True pb pa n1 n2 have "rows (fst (snd (consume env (b # bs) d lg))) = rows d @ (new1 @ new2)"
      by simp
    moreover have "list_all no_local_identity (new1 @ new2)" using l1 l2 by simp
    ultimately show ?thesis by blast
  qed
qed

text \<open>
  C10. The pipeline calls the normalizer without a local identity: every record of a
  batch has \<open>to = null\<close> when it is inbound and \<open>from = null\<close> when it is outbound, and
  so has every row that the consumer adds to the store.
\<close>

theorem C10_pipeline_without_local_identity:
  "(\<forall>r \<in> set (fst (processBatch env msgs)).
      if isFromMe r then from_phone r = None else to_phone r = None) \<and>
   (\<exists>new. rows (fst (snd (consume env batches d lg))) = rows d @ new \<and>
          list_all no_local_identity new)"
  using processBatch_without_identity [of _ env msgs] consume_rows [of env batches d lg]
  by blast

lemma extract_scenarioA: "extractMessageDataEffect env0 scenarioA None = (Some recordA, [])"
  by (simp add: extractMessageDataEffect_def scenarioA_def truthy_def timestamp_of_def
        extractNumber_def content_and_type_def Let_def env0_def recordA_def)

lemma extract_scenarioB: "extractMessageDataEffect env0 scenarioB None = (Some recordB, [])"
  by (simp add: extractMessageDataEffect_def scenarioB_def truthy_def timestamp_of_def format_seconds_def
        extractNumber_def content_and_type_def or_else_def Let_def env0_def recordB_def)

lemma processBatch_AB: "processBatch env0 (messages batchAB) = ([recordA, recordB], [])"
proof -
  have a: "(case key scenarioA of None \<Rightarrow> False | Some k \<Rightarrow> truthy (remoteJid k))"
    by (simp add: scenarioA_def truthy_def)
  have b: "(case key scenarioB of None \<Rightarrow> False | Some k \<Rightarrow> truthy (remoteJid k))"
    by (simp add: scenarioB_def truthy_def)
  show ?thesis
    by (simp add: batchAB_def a b extract_scenarioA extract_scenarioB)
qed

lemma consume_AB:
  "rows (fst (snd (consume env0 [batchAB] empty_db []))) =
     [\<lparr>message_id = ''m1'', from_phone = Some ''555'', to_phone = None,
       chat_id = ''555@s'', timestamp = ''2024-01-01T00:00:00.000Z'', content = ''hi'',
       messageType = ''text'', isFromMe = False, isGroup = False, processed = False,
       createdAt = ''2024-01-01 00:00:02''\<rparr>,
      \<lparr>message_id = ''m2'', from_phone = None, to_phone = Some ''777'',
       chat_id = ''777@s.whatsapp.net'', timestamp = ''2023-11-14T22:13:20.000Z'', content = ''look'',
       messageType = ''image'', isFromMe = True, isGroup = False, processed = False,
       createdAt = ''2024-01-01 00:00:02''\<rparr>]"
  by (simp add: processBatch_AB recordA_def recordB_def make_WhatsAppMessage_def insertMessage_def
        next_statement_def empty_db_def Let_def)

text \<open>The batch of an inbound text and an outbound image, consumed into an empty store.\<close>

theorem C10_witness:
  "recordA \<in> set (fst (processBatch env0 (messages batchAB))) \<and> \<not> isFromMe recordA \<and>
   to_phone recordA = None \<and>
   recordB \<in> set (fst (processBatch env0 (messages batchAB))) \<and> isFromMe recordB \<and>
   from_phone recordB = None \<and>
   list_all no_local_identity (rows (fst (snd (consume env0 [batchAB] empty_db [])))) \<and>
   length (rows (fst (snd (consume env0 [batchAB] empty_db [])))) = 2"
  using C10_pipeline_without_local_identity [of env0 "messages batchAB" "[batchAB]" empty_db "[]"]
  unfolding consume_AB processBatch_AB
  by (simp add: recordA_def recordB_def empty_db_def)

section \<open>Properties of the queue\<close>






section \<open>Properties of the retry policy\<close>

lemma policy_recur: "k < 5 \<Longrightarrow> createReconnectionPolicy k = Recur (1000 * 2 ^ k)"
  by (simp add: createReconnectionPolicy_def intersect_def exponential_def recurs_def)

lemma policy_stop: "5 \<le> k \<Longrightarrow> createReconnectionPolicy k = Stop"
  by (simp add: createReconnectionPolicy_def intersect_def exponential_def recurs_def)

lemma retry_from_attempts: "k \<le> 5 \<Longrightarrow> fst (snd (retry_from run k ds)) \<le> 6"
proof (induction run k ds rule: retry_from.induct)
  case (1 run k delays)
  show ?case
  proof (cases "attempt_result (run k)")
    case (Inr s)
    with "1.prems" show ?thesis by (subst retry_from.simps) simp
  next
    case (Inl e)
    show ?thesis
    proof (cases "k < 5")
      case True
      then have p: "createReconnectionPolicy k = Recur (1000 * 2 ^ k)" by (rule policy_recur)
      from True have "Suc k \<le> 5" by simp
      from "1.IH" [OF Inl p this] Inl p show ?thesis by (subst retry_from.simps) simp
    next
      case False
      then have "createReconnectionPolicy k = Stop" by (simp add: policy_stop)
      with Inl "1.prems" show ?thesis by (subst retry_from.simps) simp
    qed
  qed
qed

lemma retry_from_fail:
  "attempt_result (run k) = Inl e \<Longrightarrow> k < 5 \<Longrightarrow>
   retry_from run k ds = retry_from run (Suc k) (ds @ [1000 * 2 ^ k])"
  by (subst retry_from.simps) (simp add: policy_recur)

lemma retry_from_last:
  "attempt_result (run 5) = Inl e \<Longrightarrow> retry_from run 5 ds = (Inl e, 6, ds)"
  by (subst retry_from.simps) (simp add: policy_stop)

lemma retry_from_all_fail:
  "(\<forall>j. k \<le> j \<and> j \<le> 5 \<longrightarrow> attempt_result (run j) = Inl (e j)) \<Longrightarrow> k \<le> 5 \<Longrightarrow>
   retry_from run k ds = (Inl (e 5), 6, ds @ map (\<lambda>j. 1000 * 2 ^ j) [k..<5])"
proof (induction run k ds rule: retry_from.induct)
  case (1 run k delays)
  from "1.prems" have here: "attempt_result (run k) = Inl (e k)" by simp
  show ?case
  proof (cases "k < 5")
    case True
    then have p: "createReconnectionPolicy k = Recur (1000 * 2 ^ k)" by (rule policy_recur)
    from True have le: "Suc k \<le> 5" by simp
    from "1.prems"(1) have rest: "\<forall>j. Suc k \<le> j \<and> j \<le> 5 \<longrightarrow> attempt_result (run j) = Inl (e j)"
      by simp
    have "retry_from run k delays = retry_from run (Suc k) (delays @ [1000 * 2 ^ k])"
      using here True by (rule retry_from_fail)
    also have "\<dots> = (Inl (e 5), 6, (delays @ [1000 * 2 ^ k]) @ map (\<lambda>j. 1000 * 2 ^ j) [Suc k..<5])"
      using here p rest le by (rule "1.IH")
    also have "(delays @ [1000 * 2 ^ k]) @ map (\<lambda>j. 1000 * 2 ^ j) [Suc k..<5]
                 = delays @ map (\<lambda>j. 1000 * 2 ^ j) [k..<5]"
      using True by (simp add: upt_conv_Cons)
    finally show ?thesis .
  next
    case False
    with "1.prems"(2) have k: "k = 5" by simp
    with here have "attempt_result (run 5) = Inl (e 5)" by simp
    then have "retry_from run 5 delays = (Inl (e 5), 6, delays)" by (rule retry_from_last)
    with k show ?thesis by simp
  qed
qed

lemma nominal_delays: "map (\<lambda>j. 1000 * 2 ^ j) [0..<5] = [1000, 2000, 4000, 8000, 16000 :: nat]"
  by (simp add: upt_rec)

text \<open>
  C2 (amended). \<open>connect\<close> starts at most 6 attempts: the first one and the 5 recurrences
  of \<^verbatim>\<open>Schedule.recurs(5)\<close>. When each of them fails, a 6th attempt is made after the 5th
  failure, no 7th one is, and the failure of the 6th attempt is returned to the caller
  and logged.
\<close>

theorem C2_six_attempts:
  "fst (snd (connect run)) \<le> 6 \<and>
   ((\<forall>k < 6. attempt_result (run k) = Inl (e k)) \<longrightarrow>
      connect run = (Inl (e 5), 6, [1000, 2000, 4000, 8000, 16000], [LogConnectionFailed (e 5)]))"
proof
  obtain r n ds where rf: "retry_from run 0 [] = (r, n, ds)" by (cases "retry_from run 0 []")
  from retry_from_attempts [of 0 run "[]"] rf have "n \<le> 6" by simp
  with rf show "fst (snd (connect run)) \<le> 6" by (cases r) (simp_all add: connect_def)
next
  show "(\<forall>k < 6. attempt_result (run k) = Inl (e k)) \<longrightarrow>
      connect run = (Inl (e 5), 6, [1000, 2000, 4000, 8000, 16000], [LogConnectionFailed (e 5)])"
  proof
    assume a: "\<forall>k < 6. attempt_result (run k) = Inl (e k)"
    then have "\<forall>j. 0 \<le> j \<and> j \<le> 5 \<longrightarrow> attempt_result (run j) = Inl (e j)" by simp
    then have "retry_from run 0 [] = (Inl (e 5), 6, [] @ map (\<lambda>j. 1000 * 2 ^ j) [0..<5])"
      by (rule retry_from_all_fail) simp
    then have "retry_from run 0 [] = (Inl (e 5), 6, [1000, 2000, 4000, 8000, 16000])"
      by (simp only: nominal_delays append_Nil)
    then show "connect run = (Inl (e 5), 6, [1000, 2000, 4000, 8000, 16000], [LogConnectionFailed (e 5)])"
      by (simp add: connect_def)
  qed
qed

text \<open>When creating the socket fails every time, 6 attempts are started.\<close>

theorem C2_sixth_attempt_counterexample:
  "connect always_refused =
     (Inl FailedToCreateSocket, 6, [1000, 2000, 4000, 8000, 16000],
      [LogConnectionFailed FailedToCreateSocket])"
proof -
  have "retry_from always_refused 0 [] =
          (Inl FailedToCreateSocket, 6, [] @ map (\<lambda>j. 1000 * 2 ^ j) [0..<5])"
    by (rule retry_from_all_fail [where e = "\<lambda>j. FailedToCreateSocket"])
       (simp_all add: always_refused_def)
  then have "retry_from always_refused 0 [] =
          (Inl FailedToCreateSocket, 6, [1000, 2000, 4000, 8000, 16000])"
    by (simp only: nominal_delays append_Nil)
  then show ?thesis by (simp add: connect_def)
qed

text \<open>The theorem when loading the auth state fails every time.\<close>

theorem C2_witness:
  "attempt_result (never_loads 0) = Inl FailedToLoadAuthState \<and>
   attempt_result (never_loads 5) = Inl FailedToLoadAuthState \<and>
   connect never_loads =
     (Inl FailedToLoadAuthState, 6, [1000, 2000, 4000, 8000, 16000],
      [LogConnectionFailed FailedToLoadAuthState])"
  using C2_six_attempts [of never_loads "\<lambda>k. FailedToLoadAuthState"]
  by (simp add: never_loads_def)

section \<open>Properties of the serialization\<close>

lemma b64_value_code:
  "n < 256 \<Longrightarrow>
   b64_value (char_of n) =
     (if 65 \<le> n \<and> n \<le> 90 then Some (n - 65)
      else if 97 \<le> n \<and> n \<le> 122 then Some (n - 71)
      else if 48 \<le> n \<and> n \<le> 57 then Some (n + 4)
      else if n = 43 \<or> n = 45 then Some 62
      else if n = 47 \<or> n = 95 then Some 63
      else None)"
proof -
  assume n: "n < 256"
  then have o: "(of_char (char_of n) :: nat) = n" by (simp add: of_char_of)
  have e: "\<And>m. m < 256 \<Longrightarrow> (char_of n = (char_of m :: char)) = (n = m)"
  proof -
    fix m :: nat assume m: "m < 256"
    show "(char_of n = (char_of m :: char)) = (n = m)"
    proof
      assume "char_of n = (char_of m :: char)"
      then have "(of_char (char_of n :: char) :: nat) = of_char (char_of m :: char)" by simp
      with n m show "n = m" by (simp add: of_char_of)
    qed simp
  qed
  have c: "CHR ''+'' = char_of (43::nat)" "CHR ''-'' = char_of (45::nat)"
    "CHR ''/'' = char_of (47::nat)" "CHR ''_'' = char_of (95::nat)"
    by code_simp+
  show ?thesis
    unfolding b64_value_def Let_def o c using n by (simp add: e)
qed

lemma b64_value_char: "i < 64 \<Longrightarrow> b64_value (b64_char i) = Some i"
proof -
  assume i: "i < 64"
  consider "i < 26" | "26 \<le> i \<and> i < 52" | "52 \<le> i \<and> i < 62" | "i = 62" | "i = 63"
    using i by linarith
  then show ?thesis
  proof cases
    case 1
    then have "b64_char i = char_of (65 + i)" by (simp add: b64_char_def)
    moreover have "65 + i < 256" using 1 by simp
    ultimately show ?thesis using 1 by (simp add: b64_value_code)
  next
    case 2
    then have "b64_char i = char_of (71 + i)" by (simp add: b64_char_def)
    moreover have "71 + i < 256" using 2 by simp
    ultimately show ?thesis using 2 by (simp add: b64_value_code)
  next
    case 3
    then have "b64_char i = char_of (i - 4)" by (simp add: b64_char_def)
    moreover have "i - 4 < 256" "48 \<le> i - 4" "i - 4 \<le> 57" "i - 4 + 4 = i"
      using 3 by linarith+
    ultimately show ?thesis by (simp add: b64_value_code)
  next
    case 4
    have "CHR ''+'' = char_of (43::nat)" by code_simp
    with 4 have "b64_char i = char_of (43::nat)" by (simp add: b64_char_def)
    then show ?thesis using 4 by (simp add: b64_value_code)
  next
    case 5
    have "CHR ''/'' = char_of (47::nat)" by code_simp
    with 5 have "b64_char i = char_of (47::nat)" by (simp add: b64_char_def)
    then show ?thesis using 5 by (simp add: b64_value_code)
  qed
qed

lemma b64_pad_value: "b64_value CHR ''='' = None"
  by (simp add: b64_value_def Let_def)

lemma b64_char_not_pad: "i < 64 \<Longrightarrow> b64_char i \<noteq> CHR ''=''"
  using b64_value_char [of i] b64_pad_value by auto

lemma sextet_bounds:
  fixes a b c :: "8 word"
  shows "unat a div 4 < 64" "unat a mod 4 * 16 + unat b div 16 < 64"
    "unat b mod 16 * 4 + unat c div 64 < 64" "unat c mod 64 < 64"
    "unat a mod 4 * 16 < 64" "unat b mod 16 * 4 < 64"
proof -
  have a: "unat a < 256" using unsigned_less [of a] by simp
  have b: "unat b < 256" using unsigned_less [of b] by simp
  have c: "unat c < 256" using unsigned_less [of c] by simp
  have a4: "unat a mod 4 < 4" by simp
  have b16: "unat b mod 16 < 16" by simp
  have bd: "unat b div 16 < 16" using b by simp
  have cd: "unat c div 64 < 4" using c by simp
  show "unat a div 4 < 64" using a by simp
  show "unat a mod 4 * 16 + unat b div 16 < 64" using a4 bd by linarith
  show "unat b mod 16 * 4 + unat c div 64 < 64" using b16 cd by linarith
  show "unat c mod 64 < 64" by simp
  show "unat a mod 4 * 16 < 64" using a4 by linarith
  show "unat b mod 16 * 4 < 64" using b16 by linarith
qed

lemma byte_of_nat_unat: "(of_nat (unat (a :: 8 word)) :: 8 word) = a"
  by simp

lemma bytes_of_sextets:
  fixes a b c :: "8 word"
  shows "(of_nat (unat a div 4 * 4 + (unat a mod 4 * 16 + unat b div 16) div 16) :: 8 word) = a"
    and "(of_nat ((unat a mod 4 * 16 + unat b div 16) mod 16 * 16
                  + (unat b mod 16 * 4 + unat c div 64) div 4) :: 8 word) = b"
    and "(of_nat ((unat b mod 16 * 4 + unat c div 64) mod 4 * 64 + unat c mod 64) :: 8 word) = c"
    and "(of_nat (unat a div 4 * 4 + (unat a mod 4 * 16) div 16) :: 8 word) = a"
    and "(of_nat ((unat a mod 4 * 16 + unat b div 16) mod 16 * 16
                  + (unat b mod 16 * 4) div 4) :: 8 word) = b"
proof -
  have b: "unat b < 256" using unsigned_less [of b] by simp
  have c: "unat c < 256" using unsigned_less [of c] by simp
  have bd: "unat b div 16 < 16" using b by simp
  have cd: "unat c div 64 < 4" using c by simp
  have 1: "(unat a mod 4 * 16 + unat b div 16) div 16 = unat a mod 4" using bd by simp
  have 2: "(unat a mod 4 * 16 + unat b div 16) mod 16 = unat b div 16" using bd by simp
  have 3: "(unat b mod 16 * 4 + unat c div 64) div 4 = unat b mod 16" using cd by simp
  have 4: "(unat b mod 16 * 4 + unat c div 64) mod 4 = unat c div 64" using cd by simp
  have a': "unat a div 4 * 4 + unat a mod 4 = unat a" by simp
  have b': "unat b div 16 * 16 + unat b mod 16 = unat b" by simp
  have c': "unat c div 64 * 64 + unat c mod 64 = unat c" by simp
  show "(of_nat (unat a div 4 * 4 + (unat a mod 4 * 16 + unat b div 16) div 16) :: 8 word) = a"
    by (simp only: 1 a' byte_of_nat_unat)
  show "(of_nat ((unat a mod 4 * 16 + unat b div 16) mod 16 * 16
                  + (unat b mod 16 * 4 + unat c div 64) div 4) :: 8 word) = b"
    by (simp only: 2 3 b' byte_of_nat_unat)
  show "(of_nat ((unat b mod 16 * 4 + unat c div 64) mod 4 * 64 + unat c mod 64) :: 8 word) = c"
    by (simp only: 4 c' byte_of_nat_unat)
  have 5: "(unat a mod 4 * 16) div 16 = unat a mod 4" by simp
  have 6: "(unat b mod 16 * 4) div 4 = unat b mod 16" by simp
  show "(of_nat (unat a div 4 * 4 + (unat a mod 4 * 16) div 16) :: 8 word) = a"
    by (simp only: 5 a' byte_of_nat_unat)
  show "(of_nat ((unat a mod 4 * 16 + unat b div 16) mod 16 * 16
                  + (unat b mod 16 * 4) div 4) :: 8 word) = b"
    by (simp only: 2 6 b' byte_of_nat_unat)
qed

lemma decode_sextets:
  "sextets_to_bytes
     (List.map_filter b64_value (takeWhile (\<lambda>c. c \<noteq> CHR ''='') (base64_encode bs))) = bs"
proof (induction bs rule: base64_encode.induct)
  case (1 a b c rest)
  define s1 where "s1 = unat a div 4"
  define s2 where "s2 = unat a mod 4 * 16 + unat b div 16"
  define s3 where "s3 = unat b mod 16 * 4 + unat c div 64"
  define s4 where "s4 = unat c mod 64"
  have lt: "s1 < 64" "s2 < 64" "s3 < 64" "s4 < 64"
    unfolding s1_def s2_def s3_def s4_def by (rule sextet_bounds)+
  have enc: "base64_encode (a # b # c # rest) =
               [b64_char s1, b64_char s2, b64_char s3, b64_char s4] @ base64_encode rest"
    unfolding s1_def s2_def s3_def s4_def by simp
  have bytes: "(of_nat (s1 * 4 + s2 div 16) :: 8 word) = a"
    "(of_nat (s2 mod 16 * 16 + s3 div 4) :: 8 word) = b"
    "(of_nat (s3 mod 4 * 64 + s4) :: 8 word) = c"
    unfolding s1_def s2_def s3_def s4_def by (rule bytes_of_sextets)+
  have "List.map_filter b64_value (takeWhile (\<lambda>c. c \<noteq> CHR ''='') (base64_encode (a # b # c # rest)))
          = [s1, s2, s3, s4] @
            List.map_filter b64_value (takeWhile (\<lambda>c. c \<noteq> CHR ''='') (base64_encode rest))"
    unfolding enc using lt by (simp add: b64_char_not_pad b64_value_char List.map_filter_simps)
  then show ?case
    by (simp only: sextets_to_bytes.simps bytes "1.IH" append_Cons append_Nil)
next
  case (2 a b)
  define s1 where "s1 = unat a div 4"
  define s2 where "s2 = unat a mod 4 * 16 + unat b div 16"
  define s3 where "s3 = unat b mod 16 * 4"
  have lt: "s1 < 64" "s2 < 64" "s3 < 64"
    unfolding s1_def s2_def s3_def by (rule sextet_bounds)+
  have enc: "base64_encode [a, b] = [b64_char s1, b64_char s2, b64_char s3, CHR ''='']"
    unfolding s1_def s2_def s3_def by simp
  have bytes: "(of_nat (s1 * 4 + s2 div 16) :: 8 word) = a"
    "(of_nat (s2 mod 16 * 16 + s3 div 4) :: 8 word) = b"
    unfolding s1_def s2_def s3_def by (rule bytes_of_sextets)+
  have "List.map_filter b64_value (takeWhile (\<lambda>c. c \<noteq> CHR ''='') (base64_encode [a, b]))
          = [s1, s2, s3]"
    unfolding enc using lt by (simp add: b64_char_not_pad b64_value_char List.map_filter_simps)
  then show ?case
    by (simp only: sextets_to_bytes.simps bytes)
next
  case (3 a)
  define s1 where "s1 = unat a div 4"
  define s2 where "s2 = unat a mod 4 * 16"
  have lt: "s1 < 64" "s2 < 64"
    unfolding s1_def s2_def by (rule sextet_bounds)+
  have enc: "base64_encode [a] = [b64_char s1, b64_char s2, CHR ''='', CHR ''='']"
    unfolding s1_def s2_def by simp
  have bytes: "(of_nat (s1 * 4 + s2 div 16) :: 8 word) = a"
    unfolding s1_def s2_def by (rule bytes_of_sextets)
  have "List.map_filter b64_value (takeWhile (\<lambda>c. c \<noteq> CHR ''='') (base64_encode [a]))
          = [s1, s2]"
    unfolding enc using lt by (simp add: b64_char_not_pad b64_value_char List.map_filter_simps)
  then show ?case
    by (simp only: sextets_to_bytes.simps bytes)
next
  case 4
  show ?case by (simp add: List.map_filter_simps)
qed

lemma base64_round_trip: "base64_decode (base64_encode bs) = bs"
  unfolding base64_decode_def by (rule decode_sextets)

lemma obj_set_new:
  "k \<noteq> ''__proto__'' \<Longrightarrow> k \<notin> set (map fst acc) \<Longrightarrow> obj_set acc k v = acc @ [(k, v)]"
  by (induction acc) auto

lemma fold_obj_set:
  "distinct (map fst (acc @ kvs)) \<Longrightarrow> ''__proto__'' \<notin> set (map fst kvs) \<Longrightarrow>
   fold (\<lambda>(k, v) result. obj_set result k v) kvs acc = acc @ kvs"
proof (induction kvs arbitrary: acc)
  case Nil
  show ?case by simp
next
  case (Cons kv kvs)
  obtain k v where kv: "kv = (k, v)" by (cases kv)
  from Cons.prems kv have k: "k \<noteq> ''__proto__''" "k \<notin> set (map fst acc)" by auto
  have s: "obj_set acc k v = acc @ [(k, v)]" using k by (rule obj_set_new)
  from Cons.prems kv have d: "distinct (map fst ((acc @ [(k, v)]) @ kvs))" by simp
  from Cons.prems have p: "''__proto__'' \<notin> set (map fst kvs)" by simp
  have "fold (\<lambda>(k, v) result. obj_set result k v) kvs (acc @ [(k, v)]) = (acc @ [(k, v)]) @ kvs"
    using d p by (rule Cons.IH)
  then show ?case by (simp add: kv s)
qed

lemma from_entries_plain:
  "distinct (map fst kvs) \<Longrightarrow> ''__proto__'' \<notin> set (map fst kvs) \<Longrightarrow> from_entries kvs = kvs"
  unfolding from_entries_def using fold_obj_set [of "[]" kvs] by simp

lemma serialize_is_string: "serializeBinaryData v = JStr s \<longleftrightarrow> v = JStr s"
  by (cases v) simp_all

lemma sequence_sum_Inr: "sequence_sum (map Inr xs) = Inr xs"
  by (induction xs) simp_all

lemma map_fst_serialized:
  "map fst (map (\<lambda>(k, v). (k, f v)) kvs) = map fst kvs"
  by (induction kvs) auto

lemma map_of_serialized:
  "map_of (map (\<lambda>(k, v). (k, f v)) kvs) k = map_option f (map_of kvs k)"
  by (induction kvs) auto

lemma get_property_serialized:
  assumes "get_property kvs ''__type'' \<noteq> JStr ''binary''"
  shows "get_property (map (\<lambda>(k, v). (k, serializeBinaryData v)) kvs) ''__type'' \<noteq> JStr ''binary''"
proof (cases "map_of kvs ''__type''")
  case None
  then show ?thesis by (simp add: get_property_def map_of_serialized)
next
  case (Some v)
  with assms have "v \<noteq> JStr ''binary''" by (simp add: get_property_def)
  then have "serializeBinaryData v \<noteq> JStr ''binary''" by (simp add: serialize_is_string)
  with Some show ?thesis by (simp add: get_property_def map_of_serialized)
qed

text \<open>
  C1 (amended). For every value built from scalars, byte sequences, arrays and
  string-keyed objects in which no object has an own property \<^verbatim>\<open>__type\<close> equal to
  \<^verbatim>\<open>'binary'\<close> or an own property named \<^verbatim>\<open>__proto__\<close>, decoding the encoded form
  succeeds and returns the value, every nested byte sequence restored byte for byte,
  whatever \<^verbatim>\<open>Buffer.from\<close> does with arguments that are not strings.
\<close>

theorem C1_round_trip_untagged:
  "distinct_keys v \<Longrightarrow> untagged v \<Longrightarrow>
   deserializeBinaryData bf (serializeBinaryData v) = Inr v"
proof (induction v rule: serializeBinaryData.induct)
  case (1 bs)
  show ?case
    by (simp add: get_property_def buffer_from_base64_def base64_round_trip)
next
  case (2 xs)
  have "map (deserializeBinaryData bf) (map serializeBinaryData xs) = map Inr xs"
  proof (rule map_ext [THEN trans [OF map_map]], intro impI)
    fix x assume x: "x \<in> set xs"
    with "2.prems" have "distinct_keys x" "untagged x" by (simp_all add: list_all_iff)
    with x show "(deserializeBinaryData bf \<circ> serializeBinaryData) x = Inr x"
      using "2.IH" by simp
  qed
  then show ?case by (simp only: serializeBinaryData.simps deserializeBinaryData.simps sequence_sum_Inr) simp
next
  case (3 kvs)
  let ?ser = "map (\<lambda>(k, v). (k, serializeBinaryData v)) kvs"
  from "3.prems" have dk: "distinct (map fst kvs)" and np: "''__proto__'' \<notin> set (map fst kvs)"
    and nt: "get_property kvs ''__type'' \<noteq> JStr ''binary''"
    by simp_all
  have fe: "from_entries ?ser = ?ser"
    by (rule from_entries_plain) (simp_all only: map_fst_serialized dk np not_False_eq_True)
  have nt': "get_property ?ser ''__type'' \<noteq> JStr ''binary''"
    using nt by (rule get_property_serialized)
  have each: "map (\<lambda>(k, v). case deserializeBinaryData bf v of Inl e \<Rightarrow> Inl e | Inr v' \<Rightarrow> Inr (k, v')) ?ser
                = map Inr kvs"
  proof (rule map_ext [THEN trans [OF map_map]], intro impI)
    fix kv assume kv: "kv \<in> set kvs"
    obtain k v where e: "kv = (k, v)" by (cases kv)
    from "3.prems" kv e have "distinct_keys v" "untagged v" by (auto simp: list_all_iff)
    then have "deserializeBinaryData bf (serializeBinaryData v) = Inr v"
      using "3.IH" [OF kv e [symmetric]] by simp
    then show "((\<lambda>(k, v). case deserializeBinaryData bf v of Inl e \<Rightarrow> Inl e | Inr v' \<Rightarrow> Inr (k, v'))
                 \<circ> (\<lambda>(k, v). (k, serializeBinaryData v))) kv = Inr kv"
      by (simp add: e)
  qed
  have fk: "from_entries kvs = kvs" using dk np by (rule from_entries_plain)
  show ?case
    by (simp only: serializeBinaryData.simps deserializeBinaryData.simps fe nt' if_False each
          sequence_sum_Inr sum.case fk)
qed simp_all

text \<open>
  A plain object \<^verbatim>\<open>{__type: 'binary', data: ''}\<close> is encoded as itself and decoded as an
  empty byte sequence; an object with the own property \<^verbatim>\<open>__proto__\<close> is encoded as \<^verbatim>\<open>{}\<close>.
\<close>

theorem C1_tagged_object_counterexample:
  "deserializeBinaryData no_buffer (serializeBinaryData tagged_object) = Inr (JBytes []) \<and>
   deserializeBinaryData no_buffer (serializeBinaryData tagged_object) \<noteq> Inr tagged_object \<and>
   deserializeBinaryData no_buffer (serializeBinaryData proto_object) = Inr (JObj []) \<and>
   deserializeBinaryData no_buffer (serializeBinaryData proto_object) \<noteq> Inr proto_object"
  by (simp add: tagged_object_def proto_object_def from_entries_def get_property_def
        buffer_from_base64_def base64_decode_def List.map_filter_simps)

text \<open>The theorem at a credential blob with nested byte sequences.\<close>

theorem C1_witness:
  "distinct_keys creds \<and> untagged creds \<and>
   deserializeBinaryData no_buffer (serializeBinaryData creds) = Inr creds"
proof -
  have d: "distinct_keys creds" by (simp add: creds_def)
  have u: "untagged creds" by (simp add: creds_def get_property_def)
  from d u C1_round_trip_untagged [OF d u, of no_buffer] show ?thesis by (intro conjI)
qed

end
